theory Spec2Isabelle
  imports Main
begin

section \<open>The UNVMe client library (unvme.c)\<close>

text \<open>
  The client library is a thin layer over the driver core. The core itself
  (\<^verbatim>\<open>unvme_do_open\<close>, \<^verbatim>\<open>unvme_rw\<close>, \<^verbatim>\<open>unvme_rw_extended\<close>, \<^verbatim>\<open>unvme_aflush\<close>,
  \<^verbatim>\<open>unvme_do_poll\<close>) and the header declaring the namespace structure and
  \<^verbatim>\<open>UNVME_TIMEOUT\<close> are not part of the sources at hand, so the library functions
  take them as a parameter: a record of functions over an arbitrary core state.
  Every call into the core and every \<^verbatim>\<open>ERROR\<close> diagnostic is appended to a log, so
  that what a library function does, and in which order, can be stated.
\<close>

subsection \<open>C library scanning\<close>

text \<open>\<^verbatim>\<open>isspace\<close> in the C locale.\<close>

definition isspace :: "char \<Rightarrow> bool" where
  "isspace c \<longleftrightarrow> (let n = (of_char c :: nat) in n = 32 \<or> (9 \<le> n \<and> n \<le> 13))"

text \<open>The value of a digit character in bases up to 16, both letter cases.\<close>

definition xdigit_val :: "char \<Rightarrow> nat option" where
  "xdigit_val c =
     (let n = (of_char c :: nat) in
      if 48 \<le> n \<and> n \<le> 57 then Some (n - 48)
      else if 97 \<le> n \<and> n \<le> 102 then Some (n - 87)
      else if 65 \<le> n \<and> n \<le> 70 then Some (n - 55)
      else None)"

definition digit_val :: "nat \<Rightarrow> char \<Rightarrow> nat option" where
  "digit_val base c =
     (case xdigit_val c of
        None \<Rightarrow> None
      | Some v \<Rightarrow> if v < base then Some v else None)"

definition is_digit :: "nat \<Rightarrow> char \<Rightarrow> bool" where
  "is_digit base c \<longleftrightarrow> digit_val base c \<noteq> None"

definition digits_value :: "nat \<Rightarrow> string \<Rightarrow> nat" where
  "digits_value base ds =
     foldl (\<lambda>a c. a * base + (case digit_val base c of None \<Rightarrow> 0 | Some v \<Rightarrow> v)) 0 ds"

text \<open>
  An optional sign: the flag says whether the number is negated.
\<close>

fun scan_sign :: "string \<Rightarrow> bool \<times> string" where
  "scan_sign [] = (False, [])"
| "scan_sign (c # cs) =
     (if c = CHR ''-'' then (True, cs)
      else if c = CHR ''+'' then (False, cs)
      else (False, c # cs))"

text \<open>
  An optional \<^verbatim>\<open>0x\<close> or \<^verbatim>\<open>0X\<close> prefix of a hexadecimal number. The prefix is
  only taken when a hexadecimal digit follows; otherwise the \<^verbatim>\<open>0\<close> is the number.
\<close>

fun skip_0x :: "string \<Rightarrow> string" where
  "skip_0x (a # b # c # cs) =
     (if a = CHR ''0'' \<and> (b = CHR ''x'' \<or> b = CHR ''X'') \<and> is_digit 16 c
      then c # cs else a # b # c # cs)"
| "skip_0x cs = cs"

text \<open>
  A value stored into a 32-bit \<^verbatim>\<open>int\<close> object: reduced modulo \<open>2^32\<close> and read as
  two's complement.
\<close>

definition to_int32 :: "int \<Rightarrow> int" where
  "to_int32 v = (let m = v mod 4294967296 in if m < 2147483648 then m else m - 4294967296)"

text \<open>
  The conversion \<^verbatim>\<open>%x\<close> of \<^verbatim>\<open>sscanf\<close>: white space is skipped, then an
  optionally signed hexadecimal integer (the subject sequence of \<^verbatim>\<open>strtoul\<close> with
  base 16) is read and stored in an \<^verbatim>\<open>int\<close>. The result is the stored value and
  the unread input, or \<open>None\<close> on a matching failure.
\<close>

definition scan_x :: "string \<Rightarrow> (int \<times> string) option" where
  "scan_x s =
     (let (neg, s1) = scan_sign (dropWhile isspace s);
          s2 = skip_0x s1;
          ds = takeWhile (is_digit 16) s2
      in if ds = [] then None
         else Some (to_int32 (if neg then - int (digits_value 16 ds) else int (digits_value 16 ds)),
                    dropWhile (is_digit 16) s2))"

text \<open>
  The two formats of \<^verbatim>\<open>unvme_openq\<close> consist of \<^verbatim>\<open>%x\<close> conversions and literal
  characters. \<open>sscanf_vals\<close> runs the directives in order and yields the converted
  values, stopping at the first directive that fails; the values are assigned
  to the argument pointers in this order.
\<close>

datatype directive = Conv_x | Lit char

fun sscanf_vals :: "directive list \<Rightarrow> string \<Rightarrow> int list" where
  "sscanf_vals [] s = []"
| "sscanf_vals (Conv_x # fmt) s =
     (case scan_x s of
        None \<Rightarrow> []
      | Some (v, rest) \<Rightarrow> v # sscanf_vals fmt rest)"
| "sscanf_vals (Lit c # fmt) s =
     (case s of
        [] \<Rightarrow> []
      | a # rest \<Rightarrow> if a = c then sscanf_vals fmt rest else [])"

text \<open>
  The return value of \<^verbatim>\<open>sscanf\<close>: the number of values assigned, or \<^verbatim>\<open>EOF\<close>
  (\<open>-1\<close>) when the input ends before the first conversion.
\<close>

definition sscanf :: "directive list \<Rightarrow> string \<Rightarrow> int" where
  "sscanf fmt s =
     (if dropWhile isspace s = [] then - 1 else int (length (sscanf_vals fmt s)))"

text \<open>The formats \<^verbatim>\<open>"%x:%x.%x/%x"\<close> and \<^verbatim>\<open>"%x:%x.%x"\<close>.\<close>

definition fmt_pci_nsid :: "directive list" where
  "fmt_pci_nsid = [Conv_x, Lit CHR '':'', Conv_x, Lit CHR ''.'', Conv_x, Lit CHR ''/'', Conv_x]"

definition fmt_pci :: "directive list" where
  "fmt_pci = [Conv_x, Lit CHR '':'', Conv_x, Lit CHR ''.'', Conv_x]"

subsection \<open>The driver core as a parameter\<close>

text \<open>
  The fields of the namespace structure that unvme.c reads. Their declaration
  is in a header that is not at hand; they are unsigned counts.
\<close>

record unvme_ns =
  maxbpio :: nat
  maxiopq :: nat
  blocksize :: nat

text \<open>A descriptor pointer; \<^verbatim>\<open>NULL\<close> is \<open>None\<close> of \<open>desc option\<close>.\<close>

type_synonym desc = nat

datatype opcode = NVME_CMD_FLUSH | NVME_CMD_WRITE | NVME_CMD_READ

text \<open>
  The core's functions, each taking and returning the core state. The
  arguments are those of the C calls, in their order; a buffer pointer is an
  address.
\<close>

record 'c core =
  unvme_do_open :: "int \<Rightarrow> int \<Rightarrow> int \<Rightarrow> int \<Rightarrow> 'c \<Rightarrow> unvme_ns option \<times> 'c"
  unvme_rw :: "unvme_ns \<Rightarrow> int \<Rightarrow> opcode \<Rightarrow> nat \<Rightarrow> nat \<Rightarrow> nat \<Rightarrow> 'c \<Rightarrow> desc option \<times> 'c"
  unvme_rw_extended ::
    "unvme_ns \<Rightarrow> int \<Rightarrow> opcode \<Rightarrow> nat \<Rightarrow> nat \<Rightarrow> nat \<Rightarrow> nat \<Rightarrow> 'c \<Rightarrow> desc option \<times> 'c"
  unvme_aflush :: "unvme_ns \<Rightarrow> int \<Rightarrow> 'c \<Rightarrow> desc option \<times> 'c"
  unvme_do_poll :: "desc \<Rightarrow> int \<Rightarrow> 'c \<Rightarrow> int \<times> 'c"
  UNVME_TIMEOUT :: int

text \<open>
  What the library does that is visible outside it: the calls into the core
  with their arguments and results, and the \<^verbatim>\<open>ERROR\<close> diagnostics.
\<close>

datatype event =
    Open_call int int int int
  | Rw_call int opcode nat nat nat "desc option"
  | Rw_extended_call int opcode nat nat nat nat "desc option"
  | Aflush_call int "desc option"
  | Poll_call desc int int
  | Error_invalid_q int int
  | Error_invalid_pci string

record 'c world =
  core_state :: 'c
  events :: "event list"

definition log_event :: "event \<Rightarrow> 'c world \<Rightarrow> 'c world" where
  "log_event e w = w\<lparr>events := events w @ [e]\<rparr>"

definition call_do_open ::
  "'c core \<Rightarrow> int \<Rightarrow> int \<Rightarrow> int \<Rightarrow> int \<Rightarrow> 'c world \<Rightarrow> unvme_ns option \<times> 'c world" where
  "call_do_open core pci nsid qcount qsize w =
     (let (r, c) = unvme_do_open core pci nsid qcount qsize (core_state w)
      in (r, log_event (Open_call pci nsid qcount qsize) (w\<lparr>core_state := c\<rparr>)))"

definition call_rw ::
  "'c core \<Rightarrow> unvme_ns \<Rightarrow> int \<Rightarrow> opcode \<Rightarrow> nat \<Rightarrow> nat \<Rightarrow> nat \<Rightarrow> 'c world
     \<Rightarrow> desc option \<times> 'c world" where
  "call_rw core ns qid opc buf slba nlb w =
     (let (r, c) = unvme_rw core ns qid opc buf slba nlb (core_state w)
      in (r, log_event (Rw_call qid opc buf slba nlb r) (w\<lparr>core_state := c\<rparr>)))"

definition call_rw_extended ::
  "'c core \<Rightarrow> unvme_ns \<Rightarrow> int \<Rightarrow> opcode \<Rightarrow> nat \<Rightarrow> nat \<Rightarrow> nat \<Rightarrow> nat \<Rightarrow> 'c world
     \<Rightarrow> desc option \<times> 'c world" where
  "call_rw_extended core ns qid opc buf slba nlb flag w =
     (let (r, c) = unvme_rw_extended core ns qid opc buf slba nlb flag (core_state w)
      in (r, log_event (Rw_extended_call qid opc buf slba nlb flag r) (w\<lparr>core_state := c\<rparr>)))"

definition call_aflush ::
  "'c core \<Rightarrow> unvme_ns \<Rightarrow> int \<Rightarrow> 'c world \<Rightarrow> desc option \<times> 'c world" where
  "call_aflush core ns qid w =
     (let (r, c) = unvme_aflush core ns qid (core_state w)
      in (r, log_event (Aflush_call qid r) (w\<lparr>core_state := c\<rparr>)))"

definition call_do_poll :: "'c core \<Rightarrow> desc \<Rightarrow> int \<Rightarrow> 'c world \<Rightarrow> int \<times> 'c world" where
  "call_do_poll core d timeout w =
     (let (r, c) = unvme_do_poll core d timeout (core_state w)
      in (r, log_event (Poll_call d timeout r) (w\<lparr>core_state := c\<rparr>)))"

subsection \<open>Undefined behaviour and results\<close>

text \<open>
  Where the C standard leaves the behaviour of the code undefined, the model
  stops with a fault instead of inventing a value: signed arithmetic whose
  result is not defined (an overflow, or a left shift of a negative value), a
  division by zero, an access outside an allocated block, a read of memory
  never written. A loop that need not terminate is run with fuel; running out
  of it is a result of its own.
\<close>

datatype fault =
    Int_overflow
  | Division_by_zero
  | Out_of_bounds nat
  | Uninitialised_read nat

datatype 'a result = Returned 'a | Fault fault | Out_of_fuel

text \<open>
  Signed 32-bit arithmetic is defined only while the result is representable,
  and a left shift only of a non-negative value.
\<close>

definition in_int32 :: "int \<Rightarrow> bool" where
  "in_int32 v \<longleftrightarrow> - 2147483648 \<le> v \<and> v \<le> 2147483647"

definition shl_int :: "int \<Rightarrow> nat \<Rightarrow> int option" where
  "shl_int v k = (if 0 \<le> v \<and> in_int32 (v * 2 ^ k) then Some (v * 2 ^ k) else None)"

definition add_int :: "int option \<Rightarrow> int option \<Rightarrow> int option" where
  "add_int a b =
     (case (a, b) of
        (Some x, Some y) \<Rightarrow> if in_int32 (x + y) then Some (x + y) else None
      | _ \<Rightarrow> None)"

subsection \<open>Opening a session\<close>

text \<open>\<^verbatim>\<open>(b << 16) + (d << 8) + f\<close>\<close>

definition pci_id :: "int \<Rightarrow> int \<Rightarrow> int \<Rightarrow> int option" where
  "pci_id b d f = add_int (add_int (shl_int b 16) (shl_int d 8)) (Some f)"

text \<open>
  \<^verbatim>\<open>unvme_openq\<close>. The second \<^verbatim>\<open>sscanf\<close> runs only when the first did not return
  4; \<^verbatim>\<open>nsid\<close> keeps its initial value 1 unless the first \<^verbatim>\<open>sscanf\<close> assigned all four
  values. The values are read only where the return value says they were
  assigned.
\<close>

definition unvme_openq ::
  "'c core \<Rightarrow> string \<Rightarrow> int \<Rightarrow> int \<Rightarrow> 'c world \<Rightarrow> unvme_ns option result \<times> 'c world" where
  "unvme_openq core pciname qcount qsize w =
     (if qcount < 0 \<or> qsize < 0 \<or> qsize = 1
      then (Returned None, log_event (Error_invalid_q qcount qsize) w)
      else
        let r4 = sscanf fmt_pci_nsid pciname;
            v4 = sscanf_vals fmt_pci_nsid pciname;
            v3 = sscanf_vals fmt_pci pciname
        in if r4 \<noteq> 4 \<and> sscanf fmt_pci pciname \<noteq> 3
           then (Returned None, log_event (Error_invalid_pci pciname) w)
           else
             let (b, d, f, nsid) =
                   (if r4 = 4 then (v4 ! 0, v4 ! 1, v4 ! 2, v4 ! 3)
                    else (v3 ! 0, v3 ! 1, v3 ! 2, 1))
             in case pci_id b d f of
                  None \<Rightarrow> (Fault Int_overflow, w)
                | Some pci \<Rightarrow>
                    (case call_do_open core pci nsid qcount qsize w of
                       (r, w') \<Rightarrow> (Returned r, w')))"

text \<open>\<^verbatim>\<open>unvme_open\<close>\<close>

definition unvme_open ::
  "'c core \<Rightarrow> string \<Rightarrow> 'c world \<Rightarrow> unvme_ns option result \<times> 'c world" where
  "unvme_open core pciname w = unvme_openq core pciname 0 0 w"

subsection \<open>Submitting and polling\<close>

text \<open>\<^verbatim>\<open>unvme_aread\<close>, \<^verbatim>\<open>unvme_awrite\<close>\<close>

definition unvme_aread ::
  "'c core \<Rightarrow> unvme_ns \<Rightarrow> int \<Rightarrow> nat \<Rightarrow> nat \<Rightarrow> nat \<Rightarrow> 'c world \<Rightarrow> desc option \<times> 'c world" where
  "unvme_aread core ns qid buf slba nlb w = call_rw core ns qid NVME_CMD_READ buf slba nlb w"

definition unvme_awrite ::
  "'c core \<Rightarrow> unvme_ns \<Rightarrow> int \<Rightarrow> nat \<Rightarrow> nat \<Rightarrow> nat \<Rightarrow> 'c world \<Rightarrow> desc option \<times> 'c world" where
  "unvme_awrite core ns qid buf slba nlb w = call_rw core ns qid NVME_CMD_WRITE buf slba nlb w"

text \<open>\<^verbatim>\<open>unvme_atranslate\<close>, \<^verbatim>\<open>unvme_atranslate_read\<close>\<close>

definition unvme_atranslate ::
  "'c core \<Rightarrow> unvme_ns \<Rightarrow> int \<Rightarrow> nat \<Rightarrow> nat \<Rightarrow> 'c world \<Rightarrow> desc option \<times> 'c world" where
  "unvme_atranslate core ns qid buf slba w =
     call_rw_extended core ns qid NVME_CMD_WRITE buf slba 1 1 w"

definition unvme_atranslate_read ::
  "'c core \<Rightarrow> unvme_ns \<Rightarrow> int \<Rightarrow> nat \<Rightarrow> nat \<Rightarrow> nat \<Rightarrow> 'c world \<Rightarrow> desc option \<times> 'c world" where
  "unvme_atranslate_read core ns qid buf slba nlb w =
     call_rw_extended core ns qid NVME_CMD_READ buf slba nlb 1 w"

text \<open>\<^verbatim>\<open>unvme_apoll\<close>: the poll of the core, with no place for the CQE's DW0.\<close>

definition unvme_apoll :: "'c core \<Rightarrow> desc \<Rightarrow> int \<Rightarrow> 'c world \<Rightarrow> int \<times> 'c world" where
  "unvme_apoll core iod timeout w = call_do_poll core iod timeout w"

text \<open>
  \<^verbatim>\<open>unvme_read\<close>, \<^verbatim>\<open>unvme_flush\<close>, \<^verbatim>\<open>unvme_write\<close>. The \<^verbatim>\<open>sched_yield\<close> between
  submission and poll changes nothing the library or the core holds.
\<close>

definition unvme_read ::
  "'c core \<Rightarrow> unvme_ns \<Rightarrow> int \<Rightarrow> nat \<Rightarrow> nat \<Rightarrow> nat \<Rightarrow> 'c world \<Rightarrow> int \<times> 'c world" where
  "unvme_read core ns qid buf slba nlb w =
     (case call_rw core ns qid NVME_CMD_READ buf slba nlb w of
        (Some d, w1) \<Rightarrow> call_do_poll core d (UNVME_TIMEOUT core) w1
      | (None, w1) \<Rightarrow> (- 1, w1))"

definition unvme_flush :: "'c core \<Rightarrow> unvme_ns \<Rightarrow> int \<Rightarrow> 'c world \<Rightarrow> int \<times> 'c world" where
  "unvme_flush core ns qid w =
     (case call_aflush core ns qid w of
        (Some d, w1) \<Rightarrow> call_do_poll core d (UNVME_TIMEOUT core) w1
      | (None, w1) \<Rightarrow> (- 1, w1))"

definition unvme_write ::
  "'c core \<Rightarrow> unvme_ns \<Rightarrow> int \<Rightarrow> nat \<Rightarrow> nat \<Rightarrow> nat \<Rightarrow> 'c world \<Rightarrow> int \<times> 'c world" where
  "unvme_write core ns qid buf slba nlb w =
     (case call_rw core ns qid NVME_CMD_WRITE buf slba nlb w of
        (Some d, w1) \<Rightarrow> call_do_poll core d (UNVME_TIMEOUT core) w1
      | (None, w1) \<Rightarrow> (- 1, w1))"

subsection \<open>Translating a region\<close>

text \<open>A value held in an \<^verbatim>\<open>unsigned int\<close>: reduced modulo \<open>2^32\<close>.\<close>

definition u32 :: "nat \<Rightarrow> nat" where
  "u32 n = n mod 4294967296"

text \<open>
  \<^verbatim>\<open>nrequests = (nlb / ns->maxbpio) + !!(nlb % ns->maxbpio) + 1\<close>, an
  \<^verbatim>\<open>unsigned int\<close>. The argument \<^verbatim>\<open>nlb\<close> is a \<^verbatim>\<open>u32\<close>: a natural below \<open>2^32\<close>.
\<close>

definition nrequests :: "unvme_ns \<Rightarrow> nat \<Rightarrow> nat" where
  "nrequests ns nlb =
     u32 (nlb div maxbpio ns + (if nlb mod maxbpio ns \<noteq> 0 then 1 else 0) + 1)"

text \<open>
  The block count of the read submitted with counter \<open>i\<close>:
  \<^verbatim>\<open>(i == nrequests-1 && nlb % ns->maxbpio) ? nlb % ns->maxbpio : ns->maxbpio\<close>.
  The comparison is unsigned, and \<^verbatim>\<open>nrequests-1\<close> wraps around at 0.
\<close>

definition read_nlb :: "unvme_ns \<Rightarrow> nat \<Rightarrow> nat \<Rightarrow> nat" where
  "read_nlb ns nlb i =
     (if i = u32 (nrequests ns nlb + 4294967295) \<and> nlb mod maxbpio ns \<noteq> 0
      then nlb mod maxbpio ns else maxbpio ns)"

text \<open>
  \<^verbatim>\<open>maxj = (ns->maxbpio < nrequests) ? ns->maxbpio : nrequests\<close>, an unsigned
  value stored in an \<^verbatim>\<open>int\<close>.
\<close>

definition maxj :: "unvme_ns \<Rightarrow> nat \<Rightarrow> int" where
  "maxj ns nlb =
     to_int32 (int (if maxbpio ns < nrequests ns nlb then maxbpio ns else nrequests ns nlb))"

text \<open>
  The descriptor window \<^verbatim>\<open>desc\<close> is a block of \<^verbatim>\<open>maxiopq\<close> pointers from
  \<^verbatim>\<open>malloc\<close> (taken to succeed): its entries are indeterminate until they are
  written. Reading outside the block or reading an entry never written is a
  fault.
\<close>

datatype slot = Indeterminate | Ptr "desc option"

definition read_slot :: "slot list \<Rightarrow> nat \<Rightarrow> fault + desc option" where
  "read_slot ds k =
     (if k < length ds
      then (case ds ! k of Indeterminate \<Rightarrow> Inl (Uninitialised_read k) | Ptr p \<Rightarrow> Inr p)
      else Inl (Out_of_bounds k))"

definition write_slot :: "slot list \<Rightarrow> nat \<Rightarrow> desc option \<Rightarrow> fault + slot list" where
  "write_slot ds k p = (if k < length ds then Inr (ds[k := Ptr p]) else Inl (Out_of_bounds k))"

text \<open>The arguments of a call of \<^verbatim>\<open>unvme_translate_region\<close>.\<close>

record tr_args =
  a_ns :: unvme_ns
  a_qid :: int
  a_buf :: nat
  a_slba :: nat
  a_nlb :: nat
  a_config_nlb :: nat

text \<open>
  The local variables of \<^verbatim>\<open>unvme_translate_region\<close>, with the world. The \<^verbatim>\<open>int\<close>
  variables \<^verbatim>\<open>i\<close> and \<^verbatim>\<open>j\<close> only count upwards from 0 and are naturals here;
  incrementing one beyond \<^verbatim>\<open>INT_MAX\<close> is a fault.
\<close>

record 'c tr_state =
  t_desc :: "slot list"
  t_i :: nat
  t_j :: nat
  t_pending :: int
  t_readOffset :: nat
  t_world :: "'c world"

definition int_max :: nat where
  "int_max = 2147483647"

text \<open>
  One read submission into slot \<open>k\<close>, as both loops do it: the call, the store
  into \<^verbatim>\<open>desc[k]\<close> and the advance of \<^verbatim>\<open>readOffset\<close> (an \<^verbatim>\<open>unsigned int\<close>). The
  increment of \<open>i\<close> is left to the loop. A fault carries the state reached.
\<close>

definition submit_read ::
  "'c core \<Rightarrow> tr_args \<Rightarrow> nat \<Rightarrow> 'c tr_state \<Rightarrow> (fault \<times> 'c tr_state) + 'c tr_state" where
  "submit_read core a k s =
     (case call_rw_extended core (a_ns a) (a_qid a) NVME_CMD_READ
             (a_buf a + t_readOffset s) (a_slba a)
             (read_nlb (a_ns a) (a_nlb a) (t_i s)) 1 (t_world s) of
        (r, w') \<Rightarrow>
          (case write_slot (t_desc s) k r of
             Inl e \<Rightarrow> Inl (e, s\<lparr>t_world := w'\<rparr>)
           | Inr ds \<Rightarrow>
               Inr (s\<lparr>t_desc := ds,
                      t_readOffset :=
                        u32 (t_readOffset s + maxbpio (a_ns a) * blocksize (a_ns a)),
                      t_world := w'\<rparr>)))"

text \<open>
  The first loop, from the test \<^verbatim>\<open>i < ns->maxiopq\<close> on: it fills the window
  with reads and leaves it when the window is full or no request remains.
\<close>

function fill_window ::
  "'c core \<Rightarrow> tr_args \<Rightarrow> 'c tr_state \<Rightarrow> (fault \<times> 'c tr_state) + 'c tr_state" where
  "fill_window core a s =
     (if t_i s < maxiopq (a_ns a)
      then
        if t_i s \<ge> nrequests (a_ns a) (a_nlb a) then Inr s
        else
          (case submit_read core a (t_i s) s of
             Inl e \<Rightarrow> Inl e
           | Inr s1 \<Rightarrow>
               if t_i s \<ge> int_max then Inl (Int_overflow, s1)
               else fill_window core a (s1\<lparr>t_i := t_i s + 1\<rparr>))
      else Inr s)"
  by pat_completeness auto
termination
  by (relation "measure (\<lambda>(core, a, s). maxiopq (a_ns a) - t_i s)") auto

text \<open>
  The body of \<^verbatim>\<open>if (desc[j]) { ... }\<close> for a slot holding the descriptor \<open>d\<close>: poll
  it with the default timeout; when the poll returns 0, either submit the next
  read into the slot or clear the slot and count it off.
\<close>

definition poll_slot ::
  "'c core \<Rightarrow> tr_args \<Rightarrow> desc \<Rightarrow> 'c tr_state \<Rightarrow> (fault \<times> 'c tr_state) + 'c tr_state" where
  "poll_slot core a d s =
     (case call_do_poll core d (UNVME_TIMEOUT core) (t_world s) of
        (r, w') \<Rightarrow>
          let s0 = s\<lparr>t_world := w'\<rparr> in
          if r = 0 then
            if t_i s0 < nrequests (a_ns a) (a_nlb a) then
              (case submit_read core a (t_j s0) s0 of
                 Inl e \<Rightarrow> Inl e
               | Inr s1 \<Rightarrow>
                   if t_i s0 \<ge> int_max then Inl (Int_overflow, s1)
                   else Inr (s1\<lparr>t_i := t_i s0 + 1\<rparr>))
            else
              (case write_slot (t_desc s0) (t_j s0) None of
                 Inl e \<Rightarrow> Inl (e, s0)
               | Inr ds \<Rightarrow> Inr (s0\<lparr>t_desc := ds, t_pending := t_pending s0 - 1\<rparr>))
          else Inr s0)"

text \<open>
  The \<^verbatim>\<open>do ... while (pending > 0)\<close> loop, one iteration for each unit of fuel:
  read \<^verbatim>\<open>desc[j]\<close>, poll it when it is not \<^verbatim>\<open>NULL\<close>, advance \<open>j\<close> round-robin
  below \<^verbatim>\<open>maxj\<close>, and return 0 once nothing is pending.
\<close>

fun poll_window :: "'c core \<Rightarrow> tr_args \<Rightarrow> nat \<Rightarrow> 'c tr_state \<Rightarrow> int result \<times> 'c tr_state" where
  "poll_window core a 0 s = (Out_of_fuel, s)"
| "poll_window core a (Suc n) s =
     (case read_slot (t_desc s) (t_j s) of
        Inl e \<Rightarrow> (Fault e, s)
      | Inr p \<Rightarrow>
          (case (case p of None \<Rightarrow> Inr s | Some d \<Rightarrow> poll_slot core a d s) of
             Inl (e, s') \<Rightarrow> (Fault e, s')
           | Inr s1 \<Rightarrow>
               if t_j s1 \<ge> int_max then (Fault Int_overflow, s1)
               else
                 let s2 = s1\<lparr>t_j := (if int (t_j s1 + 1) = maxj (a_ns a) (a_nlb a)
                                       then 0 else t_j s1 + 1)\<rparr>
                 in if t_pending s2 > 0 then poll_window core a n s2
                    else (Returned 0, s2)))"

text \<open>
  \<^verbatim>\<open>unvme_translate_region\<close>: the request count (a division by \<^verbatim>\<open>maxbpio\<close>), the
  window, the config write into \<^verbatim>\<open>desc[0]\<close>, the first loop from \<open>i = 1\<close>, then
  the polling loop with \<^verbatim>\<open>pending = i\<close> and \<open>j = 0\<close>. The result comes with the
  world reached, whatever the result is.
\<close>

definition unvme_translate_region ::
  "'c core \<Rightarrow> unvme_ns \<Rightarrow> int \<Rightarrow> nat \<Rightarrow> nat \<Rightarrow> nat \<Rightarrow> nat \<Rightarrow> nat \<Rightarrow> 'c world
     \<Rightarrow> int result \<times> 'c world" where
  "unvme_translate_region core ns qid buf slba nlb config_nlb fuel w =
     (if maxbpio ns = 0 then (Fault Division_by_zero, w)
      else
        let a = \<lparr>a_ns = ns, a_qid = qid, a_buf = buf, a_slba = slba, a_nlb = nlb,
                 a_config_nlb = config_nlb\<rparr>
        in case call_rw_extended core ns qid NVME_CMD_WRITE buf slba config_nlb 1 w of
             (r, w1) \<Rightarrow>
               (case write_slot (replicate (maxiopq ns) Indeterminate) 0 r of
                  Inl e \<Rightarrow> (Fault e, w1)
                | Inr ds \<Rightarrow>
                    (case fill_window core a
                            \<lparr>t_desc = ds, t_i = 1, t_j = 0, t_pending = 0,
                             t_readOffset = 0, t_world = w1\<rparr> of
                       Inl (e, s') \<Rightarrow> (Fault e, t_world s')
                     | Inr s1 \<Rightarrow>
                         (case poll_window core a fuel (s1\<lparr>t_pending := int (t_i s1)\<rparr>) of
                            (res, s2) \<Rightarrow> (res, t_world s2)))))"

subsection \<open>Cores and namespaces for running the library\<close>

text \<open>
  To run the library on concrete inputs a core is needed. This one opens any
  device with the namespace it is given, hands out a fresh descriptor for
  every submission, and reports every poll as completed without error. Its
  state counts the descriptors handed out.
\<close>

definition responsive_core :: "unvme_ns \<Rightarrow> nat core" where
  "responsive_core ns =
     \<lparr>unvme_do_open = (\<lambda>pci nsid qcount qsize c. (Some ns, c)),
      unvme_rw = (\<lambda>ns qid opc buf slba nlb c. (Some (c + 1), c + 1)),
      unvme_rw_extended = (\<lambda>ns qid opc buf slba nlb flag c. (Some (c + 1), c + 1)),
      unvme_aflush = (\<lambda>ns qid c. (Some (c + 1), c + 1)),
      unvme_do_poll = (\<lambda>d timeout c. (0, c)),
      UNVME_TIMEOUT = 60\<rparr>"

definition world0 :: "nat world" where
  "world0 = \<lparr>core_state = 0, events = []\<rparr>"

text \<open>
  A core whose queues are full: it refuses every submission and is otherwise
  the responsive core.
\<close>

definition refusing_core :: "unvme_ns \<Rightarrow> nat core" where
  "refusing_core ns =
     (responsive_core ns)
       \<lparr>unvme_rw := (\<lambda>ns qid opc buf slba nlb c. (None, c)),
        unvme_rw_extended := (\<lambda>ns qid opc buf slba nlb flag c. (None, c)),
        unvme_aflush := (\<lambda>ns qid c. (None, c))\<rparr>"

text \<open>
  The namespace of the worked scenarios: 256 blocks per I/O, a window of 4
  descriptors, blocks of 4096 bytes.
\<close>

definition ns_256_4 :: unvme_ns where
  "ns_256_4 = \<lparr>maxbpio = 256, maxiopq = 4, blocksize = 4096\<rparr>"

text \<open>A namespace with a window of 4 descriptors and 4 blocks per I/O.\<close>

definition ns_4_4 :: unvme_ns where
  "ns_4_4 = \<lparr>maxbpio = 4, maxiopq = 4, blocksize = 512\<rparr>"

text \<open>A namespace with a window of one descriptor and one block per I/O.\<close>

definition ns_1_1 :: unvme_ns where
  "ns_1_1 = \<lparr>maxbpio = 1, maxiopq = 1, blocksize = 512\<rparr>"

subsection \<open>Synchronous I/O as the specification words it\<close>

text \<open>
  "Submit then poll with default timeout": the submission is any of the
  asynchronous submissions; without a descriptor the answer is \<open>-1\<close> and
  nothing is polled.
\<close>

definition submit_then_poll ::
  "'c core \<Rightarrow> ('c world \<Rightarrow> desc option \<times> 'c world) \<Rightarrow> 'c world \<Rightarrow> int \<times> 'c world" where
  "submit_then_poll core submit w =
     (case submit w of
        (None, w1) \<Rightarrow> (- 1, w1)
      | (Some iod, w1) \<Rightarrow> unvme_apoll core iod (UNVME_TIMEOUT core) w1)"

subsection \<open>The submissions of a region as the specification words them\<close>

text \<open>The extended submissions in a piece of the log: opcode and block count, in order.\<close>

fun submission :: "event \<Rightarrow> (opcode \<times> nat) list" where
  "submission (Rw_extended_call qid opc buf slba nlb flag r) = [(opc, nlb)]"
| "submission e = []"

definition submitted :: "event list \<Rightarrow> (opcode \<times> nat) list" where
  "submitted es = concat (map submission es)"

text \<open>\<open>ceil (n / m)\<close> on naturals.\<close>

definition ceil_div :: "nat \<Rightarrow> nat \<Rightarrow> nat" where
  "ceil_div n m = (n + m - 1) div m"

text \<open>
  "Reads of size \<open>maxbpio\<close> (last read may be short)": full reads, then the
  remainder when \<open>nlb\<close> is not a multiple of \<open>maxbpio\<close>.
\<close>

definition spec_read_sizes :: "nat \<Rightarrow> nat \<Rightarrow> nat list" where
  "spec_read_sizes nlb mb =
     replicate (nlb div mb) mb @ (if nlb mod mb = 0 then [] else [nlb mod mb])"

text \<open>
  The submissions made when the counter \<open>i\<close> of \<^verbatim>\<open>unvme_translate_region\<close> has
  reached \<open>k\<close>: the config write, then the reads numbered from 1 below \<open>k\<close>,
  each with the block count the code gives it.
\<close>

definition expected_trace :: "tr_args \<Rightarrow> nat \<Rightarrow> (opcode \<times> nat) list" where
  "expected_trace a k =
     (NVME_CMD_WRITE, a_config_nlb a)
       # map (\<lambda>i. (NVME_CMD_READ, read_nlb (a_ns a) (a_nlb a) i)) [1..<k]"

text \<open>
  The invariant of both loops, relative to the world \<open>w\<close> at the call: the counter
  is between 1 and the request count, and the log has grown by exactly the
  submissions counted so far. The weaker \<open>trace_pre\<close> holds of every world the
  call can end in.
\<close>

definition trace_inv :: "'c world \<Rightarrow> tr_args \<Rightarrow> 'c tr_state \<Rightarrow> bool" where
  "trace_inv w a s \<longleftrightarrow>
     1 \<le> t_i s \<and> t_i s \<le> nrequests (a_ns a) (a_nlb a)
     \<and> (\<exists>es. events (t_world s) = events w @ es \<and> submitted es = expected_trace a (t_i s))"

definition trace_pre :: "'c world \<Rightarrow> tr_args \<Rightarrow> 'c world \<Rightarrow> bool" where
  "trace_pre w a w' \<longleftrightarrow>
     (\<exists>es m. events w' = events w @ es \<and> m < nrequests (a_ns a) (a_nlb a)
        \<and> submitted es = expected_trace a (Suc m))"

text \<open>
  For the question whether a call returns: the slots from \<open>lo\<close> below \<open>hi\<close> of the
  window hold descriptors; a core accepts every extended submission; a core
  reports every poll as completed without error.
\<close>

definition filled :: "slot list \<Rightarrow> nat \<Rightarrow> nat \<Rightarrow> bool" where
  "filled ds lo hi \<longleftrightarrow> (\<forall>k. lo \<le> k \<and> k < hi \<longrightarrow> (\<exists>d. ds ! k = Ptr (Some d)))"

definition accepting :: "'c core \<Rightarrow> bool" where
  "accepting core \<longleftrightarrow>
     (\<forall>ns qid opc buf slba nlb flag c.
        fst (unvme_rw_extended core ns qid opc buf slba nlb flag c) \<noteq> None)"

definition completing :: "'c core \<Rightarrow> bool" where
  "completing core \<longleftrightarrow> (\<forall>d timeout c. fst (unvme_do_poll core d timeout c) = 0)"

subsection \<open>The poll of the core, from the specification\<close>

text \<open>
  Modelled from the spec: \<^verbatim>\<open>unvme_do_poll\<close>, with the descriptor table and the
  completion sweep it rests on; the driver core that defines them is not among
  the sources. In the specification's words: an I/O descriptor has the status
  PENDING, OK or ERR(code), and a free slot holds none; a completion sweep
  takes the completion entries the device has posted, in order, looks up the
  descriptor each one names and sets its status to OK or to ERR with the
  entry's status field; a poll returns 0 or the positive status code once its
  descriptor is complete, and frees the descriptor; it returns \<open>-1\<close> when the
  budget of its timeout is exhausted, and the descriptor remains allocated.
  Time is counted in seconds; a completion entry carries the time at which the
  device posts it.
\<close>

datatype iod_status = PENDING | OK | ERR nat

record cqe =
  cqe_time :: nat
  cqe_cid :: desc
  cqe_status :: nat

record device =
  clock :: nat
  iods :: "desc \<Rightarrow> iod_status option"
  cq :: "cqe list"

text \<open>
  Modelled from the spec: the terminal states of a descriptor, which the absent
  core keeps. A descriptor is complete when its status is OK or ERR.
\<close>

definition is_complete :: "iod_status option \<Rightarrow> bool" where
  "is_complete st = (case st of Some OK \<Rightarrow> True | Some (ERR code) \<Rightarrow> True | _ \<Rightarrow> False)"

text \<open>
  Modelled from the spec: one step of the completion sweep of the absent core.
  The entry's descriptor, when it is pending, becomes OK for a status field of
  0 and ERR of the status field otherwise.
\<close>

definition complete :: "cqe \<Rightarrow> (desc \<Rightarrow> iod_status option) \<Rightarrow> (desc \<Rightarrow> iod_status option)" where
  "complete c tab =
     (case tab (cqe_cid c) of
        Some PENDING \<Rightarrow>
          tab(cqe_cid c \<mapsto> (if cqe_status c = 0 then OK else ERR (cqe_status c)))
      | _ \<Rightarrow> tab)"

text \<open>
  Modelled from the spec: the wait of a poll of the absent core for the
  descriptor \<open>d\<close> until \<open>deadline\<close>. It ends as soon as \<open>d\<close> is complete;
  otherwise the next entry is consumed when the device posts it by the
  deadline; otherwise the budget is exhausted.
\<close>

function sweep :: "desc \<Rightarrow> nat \<Rightarrow> device \<Rightarrow> device" where
  "sweep d deadline dv =
     (if is_complete (iods dv d) then dv
      else
        (case cq dv of
           [] \<Rightarrow> dv\<lparr>clock := deadline\<rparr>
         | c # cs \<Rightarrow>
             if cqe_time c \<le> deadline
             then sweep d deadline
                    (dv\<lparr>clock := max (clock dv) (cqe_time c),
                        iods := complete c (iods dv),
                        cq := cs\<rparr>)
             else dv\<lparr>clock := deadline\<rparr>))"
  by pat_completeness auto
termination
  by (relation "measure (\<lambda>(d, deadline, dv). length (cq dv))") auto

text \<open>
  Modelled from the spec: \<^verbatim>\<open>unvme_do_poll\<close> of the absent core, called without a
  place for the CQE's DW0. It answers 0 or the status code for a complete
  descriptor, which is freed, and \<open>-1\<close> for a timeout, which leaves the table as
  the sweep left it.
\<close>

definition unvme_do_poll_spec :: "desc \<Rightarrow> int \<Rightarrow> device \<Rightarrow> int \<times> device" where
  "unvme_do_poll_spec d timeout dv =
     (let dv1 = sweep d (clock dv + nat timeout) dv
      in case iods dv1 d of
           Some OK \<Rightarrow> (0, dv1\<lparr>iods := (iods dv1)(d := None)\<rparr>)
         | Some (ERR code) \<Rightarrow> (int code, dv1\<lparr>iods := (iods dv1)(d := None)\<rparr>)
         | _ \<Rightarrow> (- 1, dv1))"

text \<open>
  A core over this device, for polling: its poll is the one above; opening
  and submitting are outside this model and answer \<^verbatim>\<open>NULL\<close>.
\<close>

definition spec_poll_core :: "device core" where
  "spec_poll_core =
     \<lparr>unvme_do_open = (\<lambda>pci nsid qcount qsize dv. (None, dv)),
      unvme_rw = (\<lambda>ns qid opc buf slba nlb dv. (None, dv)),
      unvme_rw_extended = (\<lambda>ns qid opc buf slba nlb flag dv. (None, dv)),
      unvme_aflush = (\<lambda>ns qid dv. (None, dv)),
      unvme_do_poll = unvme_do_poll_spec,
      UNVME_TIMEOUT = 60\<rparr>"

text \<open>
  The device of scenario S4: descriptor 0 is pending, and the device posts its
  completion, with the given status field, at time 3.
\<close>

definition device_s4 :: "nat \<Rightarrow> device" where
  "device_s4 status =
     \<lparr>clock = 0,
      iods = (\<lambda>d. if d = 0 then Some PENDING else None),
      cq = [\<lparr>cqe_time = 3, cqe_cid = 0, cqe_status = status\<rparr>]\<rparr>"

definition world_s4 :: "nat \<Rightarrow> device world" where
  "world_s4 status = \<lparr>core_state = device_s4 status, events = []\<rparr>"

section \<open>The set-features test program (nvme_set_features.c)\<close>

text \<open>
  \<^verbatim>\<open>strtol\<close> with base 0, as the program calls it: white space, an optional sign,
  then a hexadecimal number after \<^verbatim>\<open>0x\<close> or \<^verbatim>\<open>0X\<close>, an octal number after a leading
  \<^verbatim>\<open>0\<close>, or a decimal number. The result is the value, clamped to the range of
  \<^verbatim>\<open>long\<close> (64 bits), and the unread rest of the string; without any digit the
  value is 0 and nothing is read.
\<close>

fun has_0x :: "string \<Rightarrow> bool" where
  "has_0x (a # b # c # cs) \<longleftrightarrow>
     a = CHR ''0'' \<and> (b = CHR ''x'' \<or> b = CHR ''X'') \<and> is_digit 16 c"
| "has_0x cs \<longleftrightarrow> False"

definition clamp_long :: "int \<Rightarrow> int" where
  "clamp_long v = max (- 9223372036854775808) (min 9223372036854775807 v)"

definition strtol :: "string \<Rightarrow> int \<times> string" where
  "strtol s =
     (let (neg, s1) = scan_sign (dropWhile isspace s);
          base = (if has_0x s1 then 16 else if take 1 s1 = ''0'' then 8 else 10);
          s2 = (if has_0x s1 then drop 2 s1 else s1);
          ds = takeWhile (is_digit base) s2
      in if ds = [] then (0, s)
         else (clamp_long (if neg then - int (digits_value base ds)
                           else int (digits_value base ds)),
               dropWhile (is_digit base) s2))"

text \<open>The conversion of a \<^verbatim>\<open>long\<close> to \<^verbatim>\<open>u32\<close>.\<close>

definition to_u32 :: "int \<Rightarrow> nat" where
  "to_u32 v = nat (v mod 4294967296)"

text \<open>
  What the program takes from outside: the feature identifiers of the NVMe
  header that bound the supported range, the result of \<^verbatim>\<open>vfio_dma_alloc\<close> (the
  address of the buffer, or \<^verbatim>\<open>NULL\<close>), and the device's reply to a features
  command for a namespace, a feature, and the two PRP addresses: the error
  code and the completion dword. \<^verbatim>\<open>nvme_setup\<close> and \<^verbatim>\<open>nvme_cleanup\<close> are taken to
  succeed.
\<close>

record features_env =
  NVME_FEATURE_ARBITRATION :: int
  NVME_FEATURE_LBA_RANGE :: int
  NVME_FEATURE_ASYNC_EVENT :: int
  vfio_dma_alloc :: "nat option"
  device_features :: "int \<Rightarrow> int \<Rightarrow> nat \<Rightarrow> nat \<Rightarrow> int \<times> nat"

text \<open>
  Modelled from the spec: \<^verbatim>\<open>nvme_acmd_get_features\<close>, which the NVMe admin driver
  defines and the sources at hand do not contain. The specification says of the
  features command that \<^verbatim>\<open>res\<close> is an OUT parameter only: the command does not read
  it, and leaves the device's reply in it. The result is the error code and the
  new value of \<^verbatim>\<open>res\<close>.
\<close>

definition nvme_acmd_get_features ::
  "(int \<Rightarrow> int \<Rightarrow> nat \<Rightarrow> nat \<Rightarrow> int \<times> nat) \<Rightarrow> int \<Rightarrow> int \<Rightarrow> nat \<Rightarrow> nat \<Rightarrow> nat \<Rightarrow> int \<times> nat" where
  "nvme_acmd_get_features dev nsid fid prp1 prp2 res = dev nsid fid prp1 prp2"

text \<open>
  How the program ends: with the usage message, with the message that the
  feature is not supported, with a failed allocation, with a failed command
  (all exit status 1), or by printing the feature's line from \<^verbatim>\<open>res\<close> and
  returning 0.
\<close>

datatype main_exit = Usage_error | Not_supported int | Dma_alloc_failed | Command_failed int
  | Printed int nat

text \<open>
  The argument parsing of \<^verbatim>\<open>main\<close> (lines 47 to 69): \<^verbatim>\<open>nsid\<close> from \<^verbatim>\<open>argv[2]\<close>, \<^verbatim>\<open>fid\<close>
  from \<^verbatim>\<open>argv[3]\<close>, and \<^verbatim>\<open>res\<close> from \<^verbatim>\<open>argv[3]\<close> again; each must be read to its
  end. \<open>None\<close> is the usage error.
\<close>

definition parse_args :: "string list \<Rightarrow> (int \<times> int \<times> nat) option" where
  "parse_args argv =
     (if length argv < 5 then None
      else
        case strtol (argv ! 2) of (nsid, rest2) \<Rightarrow>
          if rest2 \<noteq> [] then None
          else
            case strtol (argv ! 3) of (fid, rest3) \<Rightarrow>
              if rest3 \<noteq> [] then None
              else
                case strtol (argv ! 3) of (res, rest3') \<Rightarrow>
                  if rest3' \<noteq> [] then None
                  else Some (to_int32 nsid, to_int32 fid, to_u32 res))"

text \<open>\<^verbatim>\<open>main\<close> of nvme_set_features.c.\<close>

definition main_set_features :: "features_env \<Rightarrow> string list \<Rightarrow> main_exit" where
  "main_set_features env argv =
     (case parse_args argv of
        None \<Rightarrow> Usage_error
      | Some (nsid, fid, res) \<Rightarrow>
          if fid < NVME_FEATURE_ARBITRATION env \<or> fid > NVME_FEATURE_ASYNC_EVENT env
             \<or> fid = NVME_FEATURE_LBA_RANGE env
          then Not_supported fid
          else
            (case vfio_dma_alloc env of
               None \<Rightarrow> Dma_alloc_failed
             | Some prp1 \<Rightarrow>
                 (case nvme_acmd_get_features (device_features env) nsid fid prp1 0 res of
                    (err, res') \<Rightarrow>
                      if err \<noteq> 0 then Command_failed fid else Printed fid res')))"

text \<open>
  An environment with the feature numbers of the program's own output lines
  (arbitration 1, LBA range 3, asynchronous events 11) and a device that
  answers every command without error.
\<close>

definition nvme_env :: features_env where
  "nvme_env =
     \<lparr>NVME_FEATURE_ARBITRATION = 1, NVME_FEATURE_LBA_RANGE = 3, NVME_FEATURE_ASYNC_EVENT = 11,
      vfio_dma_alloc = Some 4096,
      device_features = (\<lambda>nsid fid prp1 prp2. (0, if fid = 7 then 983055 else 0))\<rparr>"

text \<open>A command line with feature 7 and the feature argument 255.\<close>

definition argv_7 :: "string list" where
  "argv_7 = [''nvme_set_features'', ''01:00.0'', ''1'', ''7'', ''255'']"

section \<open>Properties\<close>

subsection \<open>The log\<close>

lemma events_log_event: "events (log_event e w) = events w @ [e]"
  by (simp add: log_event_def)


lemma events_call_do_open:
  "events (snd (call_do_open core pci nsid qcount qsize w)) =
     events w @ [Open_call pci nsid qcount qsize]"
  by (simp add: call_do_open_def log_event_def split: prod.splits)

lemma events_call_rw_extended:
  "events (snd (call_rw_extended core ns qid opc buf slba nlb flag w)) =
     events w @ [Rw_extended_call qid opc buf slba nlb flag
                   (fst (call_rw_extended core ns qid opc buf slba nlb flag w))]"
  by (simp add: call_rw_extended_def log_event_def split: prod.splits)

lemma events_call_rw:
  "events (snd (call_rw core ns qid opc buf slba nlb w)) =
     events w @ [Rw_call qid opc buf slba nlb (fst (call_rw core ns qid opc buf slba nlb w))]"
  by (simp add: call_rw_def log_event_def split: prod.splits)

lemma events_call_aflush:
  "events (snd (call_aflush core ns qid w)) =
     events w @ [Aflush_call qid (fst (call_aflush core ns qid w))]"
  by (simp add: call_aflush_def log_event_def split: prod.splits)

lemma events_call_do_poll:
  "events (snd (call_do_poll core d timeout w)) =
     events w @ [Poll_call d timeout (fst (call_do_poll core d timeout w))]"
  by (simp add: call_do_poll_def log_event_def split: prod.splits)

subsection \<open>Opening\<close>

lemma events_unvme_openq_valid:
  assumes "\<not> (qcount < 0 \<or> qsize < 0 \<or> qsize = 1)"
  shows "events (snd (unvme_openq core pciname qcount qsize w)) =
           events w @ [Error_invalid_pci pciname]
       \<or> events (snd (unvme_openq core pciname qcount qsize w)) = events w
       \<or> (\<exists>pci nsid. events (snd (unvme_openq core pciname qcount qsize w)) =
             events w @ [Open_call pci nsid qcount qsize])"
proof -
  have "\<exists>pci nsid.
          events (snd (case call_do_open core p n qcount qsize w of (r, w') \<Rightarrow> (Returned r, w')))
          = events w @ [Open_call pci nsid qcount qsize]" for p n
    using events_call_do_open [of core p n qcount qsize w]
    by (cases "call_do_open core p n qcount qsize w") auto
  then show ?thesis
    using assms
    by (auto simp: unvme_openq_def Let_def events_log_event split: option.splits prod.splits)
qed

text \<open>
  C9. Whenever \<open>qcount < 0\<close>, \<open>qsize < 0\<close> or \<open>qsize = 1\<close>, \<^verbatim>\<open>unvme_openq\<close> returns
  \<^verbatim>\<open>NULL\<close> whatever the PCI name is: the name is not parsed, the core is not
  called and its state is untouched; only the diagnostic about the queue
  arguments is emitted. All other queue arguments, that is every non-negative
  count and every non-negative size except 1, pass this validation: the
  diagnostic about queue arguments is not what the call ends with.
\<close>

theorem openq_rejects_invalid_queue_arguments:
  "(qcount < 0 \<or> qsize < 0 \<or> qsize = 1 \<longrightarrow>
      (\<forall>pciname. unvme_openq core pciname qcount qsize w =
         (Returned None, log_event (Error_invalid_q qcount qsize) w)))
   \<and> (0 \<le> qcount \<and> 0 \<le> qsize \<and> qsize \<noteq> 1 \<longrightarrow>
      events (snd (unvme_openq core pciname qcount qsize w)) \<noteq>
        events w @ [Error_invalid_q qcount qsize])"
proof (intro conjI impI allI)
  fix p assume "qcount < 0 \<or> qsize < 0 \<or> qsize = 1"
  then show "unvme_openq core p qcount qsize w =
               (Returned None, log_event (Error_invalid_q qcount qsize) w)"
    by (simp add: unvme_openq_def)
next
  assume "0 \<le> qcount \<and> 0 \<le> qsize \<and> qsize \<noteq> 1"
  then have "\<not> (qcount < 0 \<or> qsize < 0 \<or> qsize = 1)" by auto
  from events_unvme_openq_valid [OF this, of core pciname w]
  show "events (snd (unvme_openq core pciname qcount qsize w)) \<noteq>
          events w @ [Error_invalid_q qcount qsize]"
    by auto
qed

theorem openq_rejects_invalid_queue_arguments_witness:
  "((4::int) < 0 \<or> (1::int) < 0 \<or> (1::int) = 1)
   \<and> unvme_openq (responsive_core ns_256_4) ''01:00.0'' 4 1 world0 =
       (Returned None, log_event (Error_invalid_q 4 1) world0)
   \<and> ((0::int) \<le> 4 \<and> (0::int) \<le> 2 \<and> (2::int) \<noteq> 1)
   \<and> events (snd (unvme_openq (responsive_core ns_256_4) ''01:00.0'' 4 2 world0)) \<noteq>
       events world0 @ [Error_invalid_q 4 2]"
  using openq_rejects_invalid_queue_arguments
          [where qcount = 4 and qsize = 1 and core = "responsive_core ns_256_4" and w = world0]
        openq_rejects_invalid_queue_arguments
          [where qcount = 4 and qsize = 2 and core = "responsive_core ns_256_4" and w = world0
             and pciname = "''01:00.0''"]
  by simp

text \<open>
  C6. \<^verbatim>\<open>unvme_open\<close> returns exactly what \<^verbatim>\<open>unvme_openq\<close> returns for a queue
  count of 0 and a queue size of 0. These arguments pass the validation of
  \<^verbatim>\<open>unvme_openq\<close>, and whenever the session open of the core is called it is
  called with queue count 0 and queue size 0: the choice of the defaults and
  their clamping are left to the core.
\<close>

theorem unvme_open_is_openq_0_0:
  "unvme_open core pciname w = unvme_openq core pciname 0 0 w
   \<and> events (snd (unvme_open core pciname w)) \<noteq> events w @ [Error_invalid_q 0 0]
   \<and> (\<forall>pci nsid qcount qsize.
         Open_call pci nsid qcount qsize
           \<in> set (drop (length (events w)) (events (snd (unvme_open core pciname w))))
         \<longrightarrow> qcount = 0 \<and> qsize = 0)"
proof -
  have valid: "\<not> ((0::int) < 0 \<or> (0::int) < 0 \<or> (0::int) = 1)" by simp
  from events_unvme_openq_valid [OF valid, of core pciname w]
  show ?thesis
    unfolding unvme_open_def by auto
qed

theorem unvme_open_is_openq_0_0_witness:
  "Open_call 65536 1 0 0
     \<in> set (drop (length (events world0))
              (events (snd (unvme_open (responsive_core ns_256_4) ''01:00.0'' world0))))
   \<and> unvme_open (responsive_core ns_256_4) ''01:00.0'' world0 =
       unvme_openq (responsive_core ns_256_4) ''01:00.0'' 0 0 world0
   \<and> fst (unvme_open (responsive_core ns_256_4) ''01:00.0'' world0) = Returned (Some ns_256_4)"
proof -
  have run: "unvme_openq (responsive_core ns_256_4) ''01:00.0'' 0 0 world0 =
               (Returned (Some ns_256_4), \<lparr>core_state = 0, events = [Open_call 65536 1 0 0]\<rparr>)"
    by code_simp
  from unvme_open_is_openq_0_0 [of "responsive_core ns_256_4" "''01:00.0''" world0]
  have eq: "unvme_open (responsive_core ns_256_4) ''01:00.0'' world0 =
              unvme_openq (responsive_core ns_256_4) ''01:00.0'' 0 0 world0"
    by blast
  show ?thesis
    unfolding eq run by (simp add: world0_def)
qed

subsection \<open>Submissions and synchronous I/O\<close>

text \<open>
  C7. \<^verbatim>\<open>unvme_atranslate\<close> makes exactly one call into the core: the extended
  submission with opcode write, block count 1 and config-page flag 1, for the
  queue, buffer and starting block it was given; it returns that call's
  descriptor and leaves the core in that call's state. \<^verbatim>\<open>unvme_atranslate_read\<close>
  does the same with opcode read, the block count \<open>nlb\<close> it was given, and
  flag 1.
\<close>

theorem atranslate_submits_one_extended_command:
  "events (snd (unvme_atranslate core ns qid buf slba w)) =
     events w @ [Rw_extended_call qid NVME_CMD_WRITE buf slba 1 1
                   (fst (unvme_atranslate core ns qid buf slba w))]
   \<and> fst (unvme_atranslate core ns qid buf slba w) =
       fst (unvme_rw_extended core ns qid NVME_CMD_WRITE buf slba 1 1 (core_state w))
   \<and> core_state (snd (unvme_atranslate core ns qid buf slba w)) =
       snd (unvme_rw_extended core ns qid NVME_CMD_WRITE buf slba 1 1 (core_state w))
   \<and> events (snd (unvme_atranslate_read core ns qid buf slba nlb w)) =
       events w @ [Rw_extended_call qid NVME_CMD_READ buf slba nlb 1
                     (fst (unvme_atranslate_read core ns qid buf slba nlb w))]
   \<and> fst (unvme_atranslate_read core ns qid buf slba nlb w) =
       fst (unvme_rw_extended core ns qid NVME_CMD_READ buf slba nlb 1 (core_state w))
   \<and> core_state (snd (unvme_atranslate_read core ns qid buf slba nlb w)) =
       snd (unvme_rw_extended core ns qid NVME_CMD_READ buf slba nlb 1 (core_state w))"
  by (simp add: unvme_atranslate_def unvme_atranslate_read_def call_rw_extended_def
        log_event_def split: prod.splits)

text \<open>
  C4. Each of \<^verbatim>\<open>unvme_read\<close>, \<^verbatim>\<open>unvme_write\<close> and \<^verbatim>\<open>unvme_flush\<close> is the
  corresponding asynchronous submission followed by one poll with the default
  timeout: same return value, same core state, same calls in the same order.
  When the submission returns no descriptor, the synchronous call returns
  \<open>-1\<close> and the submission is the only call made: nothing is polled.
\<close>

theorem sync_io_is_submit_then_poll:
  "unvme_read core ns qid buf slba nlb w =
     submit_then_poll core (unvme_aread core ns qid buf slba nlb) w
   \<and> unvme_write core ns qid buf slba nlb w =
       submit_then_poll core (unvme_awrite core ns qid buf slba nlb) w
   \<and> unvme_flush core ns qid w = submit_then_poll core (call_aflush core ns qid) w
   \<and> (fst (unvme_aread core ns qid buf slba nlb w) = None \<longrightarrow>
        fst (unvme_read core ns qid buf slba nlb w) = - 1
        \<and> snd (unvme_read core ns qid buf slba nlb w) = snd (unvme_aread core ns qid buf slba nlb w)
        \<and> events (snd (unvme_read core ns qid buf slba nlb w)) =
            events w @ [Rw_call qid NVME_CMD_READ buf slba nlb None])
   \<and> (fst (unvme_awrite core ns qid buf slba nlb w) = None \<longrightarrow>
        fst (unvme_write core ns qid buf slba nlb w) = - 1
        \<and> snd (unvme_write core ns qid buf slba nlb w) = snd (unvme_awrite core ns qid buf slba nlb w)
        \<and> events (snd (unvme_write core ns qid buf slba nlb w)) =
            events w @ [Rw_call qid NVME_CMD_WRITE buf slba nlb None])
   \<and> (fst (call_aflush core ns qid w) = None \<longrightarrow>
        fst (unvme_flush core ns qid w) = - 1
        \<and> snd (unvme_flush core ns qid w) = snd (call_aflush core ns qid w)
        \<and> events (snd (unvme_flush core ns qid w)) = events w @ [Aflush_call qid None])"
proof -
  have r: "unvme_read core ns qid buf slba nlb w =
             submit_then_poll core (unvme_aread core ns qid buf slba nlb) w"
    by (simp add: unvme_read_def submit_then_poll_def unvme_aread_def unvme_apoll_def
          split: prod.splits option.splits)
  have wr: "unvme_write core ns qid buf slba nlb w =
              submit_then_poll core (unvme_awrite core ns qid buf slba nlb) w"
    by (simp add: unvme_write_def submit_then_poll_def unvme_awrite_def unvme_apoll_def
          split: prod.splits option.splits)
  have f: "unvme_flush core ns qid w = submit_then_poll core (call_aflush core ns qid) w"
    by (simp add: unvme_flush_def submit_then_poll_def unvme_apoll_def
          split: prod.splits option.splits)
  have r0: "fst (unvme_aread core ns qid buf slba nlb w) = None \<longrightarrow>
        fst (unvme_read core ns qid buf slba nlb w) = - 1
        \<and> snd (unvme_read core ns qid buf slba nlb w) = snd (unvme_aread core ns qid buf slba nlb w)
        \<and> events (snd (unvme_read core ns qid buf slba nlb w)) =
            events w @ [Rw_call qid NVME_CMD_READ buf slba nlb None]"
    using events_call_rw [of core ns qid NVME_CMD_READ buf slba nlb w]
    by (cases "call_rw core ns qid NVME_CMD_READ buf slba nlb w")
       (auto simp: unvme_read_def unvme_aread_def)
  have w0: "fst (unvme_awrite core ns qid buf slba nlb w) = None \<longrightarrow>
        fst (unvme_write core ns qid buf slba nlb w) = - 1
        \<and> snd (unvme_write core ns qid buf slba nlb w) = snd (unvme_awrite core ns qid buf slba nlb w)
        \<and> events (snd (unvme_write core ns qid buf slba nlb w)) =
            events w @ [Rw_call qid NVME_CMD_WRITE buf slba nlb None]"
    using events_call_rw [of core ns qid NVME_CMD_WRITE buf slba nlb w]
    by (cases "call_rw core ns qid NVME_CMD_WRITE buf slba nlb w")
       (auto simp: unvme_write_def unvme_awrite_def)
  have f0: "fst (call_aflush core ns qid w) = None \<longrightarrow>
        fst (unvme_flush core ns qid w) = - 1
        \<and> snd (unvme_flush core ns qid w) = snd (call_aflush core ns qid w)
        \<and> events (snd (unvme_flush core ns qid w)) = events w @ [Aflush_call qid None]"
    using events_call_aflush [of core ns qid w]
    by (cases "call_aflush core ns qid w") (auto simp: unvme_flush_def)
  from r wr f r0 w0 f0 show ?thesis by blast
qed

theorem sync_io_is_submit_then_poll_witness:
  "fst (unvme_aread (refusing_core ns_256_4) ns_256_4 0 0 0 1 world0) = None
   \<and> fst (unvme_awrite (refusing_core ns_256_4) ns_256_4 0 0 0 1 world0) = None
   \<and> fst (call_aflush (refusing_core ns_256_4) ns_256_4 0 world0) = None
   \<and> fst (unvme_read (refusing_core ns_256_4) ns_256_4 0 0 0 1 world0) = - 1
   \<and> events (snd (unvme_read (refusing_core ns_256_4) ns_256_4 0 0 0 1 world0)) =
       events world0 @ [Rw_call 0 NVME_CMD_READ 0 0 1 None]
   \<and> fst (unvme_write (refusing_core ns_256_4) ns_256_4 0 0 0 1 world0) = - 1
   \<and> fst (unvme_flush (refusing_core ns_256_4) ns_256_4 0 world0) = - 1
   \<and> unvme_read (responsive_core ns_256_4) ns_256_4 0 0 0 1 world0 =
       (0, \<lparr>core_state = 1,
            events = [Rw_call 0 NVME_CMD_READ 0 0 1 (Some 1), Poll_call 1 60 0]\<rparr>)"
proof -
  have a: "fst (unvme_aread (refusing_core ns_256_4) ns_256_4 0 0 0 1 world0) = None"
    by (simp add: unvme_aread_def call_rw_def refusing_core_def responsive_core_def)
  have b: "fst (unvme_awrite (refusing_core ns_256_4) ns_256_4 0 0 0 1 world0) = None"
    by (simp add: unvme_awrite_def call_rw_def refusing_core_def responsive_core_def)
  have c: "fst (call_aflush (refusing_core ns_256_4) ns_256_4 0 world0) = None"
    by (simp add: call_aflush_def refusing_core_def responsive_core_def)
  have d: "submit_then_poll (responsive_core ns_256_4)
             (unvme_aread (responsive_core ns_256_4) ns_256_4 0 0 0 1) world0 =
           (0, \<lparr>core_state = 1,
                events = [Rw_call 0 NVME_CMD_READ 0 0 1 (Some 1), Poll_call 1 60 0]\<rparr>)"
    by (simp add: submit_then_poll_def unvme_aread_def unvme_apoll_def call_rw_def
          call_do_poll_def log_event_def responsive_core_def world0_def)
  note refusing =
    sync_io_is_submit_then_poll [of "refusing_core ns_256_4" ns_256_4 0 0 0 1 world0]
  note responsive =
    sync_io_is_submit_then_poll [of "responsive_core ns_256_4" ns_256_4 0 0 0 1 world0]
  from refusing a
  have r: "fst (unvme_read (refusing_core ns_256_4) ns_256_4 0 0 0 1 world0) = - 1
     \<and> events (snd (unvme_read (refusing_core ns_256_4) ns_256_4 0 0 0 1 world0)) =
         events world0 @ [Rw_call 0 NVME_CMD_READ 0 0 1 None]"
    by blast
  from refusing b
  have wr: "fst (unvme_write (refusing_core ns_256_4) ns_256_4 0 0 0 1 world0) = - 1"
    by blast
  from refusing c
  have f: "fst (unvme_flush (refusing_core ns_256_4) ns_256_4 0 world0) = - 1"
    by blast
  from responsive d
  have ok: "unvme_read (responsive_core ns_256_4) ns_256_4 0 0 0 1 world0 =
       (0, \<lparr>core_state = 1,
            events = [Rw_call 0 NVME_CMD_READ 0 0 1 (Some 1), Poll_call 1 60 0]\<rparr>)"
    by (elim conjE) (erule trans, assumption)
  from a b c r wr f ok show ?thesis by blast
qed

subsection \<open>Translating a region: the submissions\<close>

lemma submitted_append: "submitted (xs @ ys) = submitted xs @ submitted ys"
  by (simp add: submitted_def)

lemma expected_trace_Suc:
  "1 \<le> k \<Longrightarrow> expected_trace a (Suc k) =
     expected_trace a k @ [(NVME_CMD_READ, read_nlb (a_ns a) (a_nlb a) k)]"
  by (simp add: expected_trace_def)

lemma trace_inv_pre: "trace_inv w a s \<Longrightarrow> trace_pre w a (t_world s)"
  unfolding trace_inv_def trace_pre_def
  by (metis Suc_pred' less_eq_Suc_le less_imp_diff_less linorder_not_less nat_less_le One_nat_def Suc_le_lessD diff_less zero_less_one)

lemma submit_read_events:
  assumes "submit_read core a k s = Inr s1 \<or> submit_read core a k s = Inl (e, s1)"
  shows "\<exists>ev. events (t_world s1) = events (t_world s) @ [ev]
           \<and> submission ev = [(NVME_CMD_READ, read_nlb (a_ns a) (a_nlb a) (t_i s))]"
    and "t_i s1 = t_i s" and "t_pending s1 = t_pending s" and "t_j s1 = t_j s"
  using assms
  by (auto simp: submit_read_def call_rw_extended_def log_event_def
      split: prod.splits sum.splits)

lemma submit_read_step:
  assumes inv: "trace_inv w a s" and lt: "t_i s < nrequests (a_ns a) (a_nlb a)"
    and sub: "submit_read core a k s = Inr s1 \<or> submit_read core a k s = Inl (e, s1)"
  shows "trace_inv w a (s1\<lparr>t_i := t_i s + 1\<rparr>)" and "trace_pre w a (t_world s1)"
proof -
  from inv obtain es where es: "events (t_world s) = events w @ es"
    "submitted es = expected_trace a (t_i s)" and i1: "1 \<le> t_i s"
    by (auto simp: trace_inv_def)
  from submit_read_events(1) [OF sub] obtain ev where
    ev: "events (t_world s1) = events (t_world s) @ [ev]"
    "submission ev = [(NVME_CMD_READ, read_nlb (a_ns a) (a_nlb a) (t_i s))]"
    by blast
  have new: "events (t_world s1) = events w @ (es @ [ev])"
    "submitted (es @ [ev]) = expected_trace a (Suc (t_i s))"
    using es ev i1 by (simp_all add: submitted_append expected_trace_Suc) (simp add: submitted_def)
  show "trace_inv w a (s1\<lparr>t_i := t_i s + 1\<rparr>)"
    unfolding trace_inv_def using new lt by auto
  show "trace_pre w a (t_world s1)"
    unfolding trace_pre_def using new lt by blast
qed

lemma poll_slot_step:
  assumes inv: "trace_inv w a s"
  shows "poll_slot core a d s = Inr s1 \<Longrightarrow>
           trace_inv w a s1 \<and>
           (t_pending s1 = t_pending s \<or>
            (t_pending s1 = t_pending s - 1 \<and> nrequests (a_ns a) (a_nlb a) \<le> t_i s1))"
    and "poll_slot core a d s = Inl (e, s1) \<Longrightarrow> trace_pre w a (t_world s1)"
proof -
  obtain r w' where p: "call_do_poll core d (UNVME_TIMEOUT core) (t_world s) = (r, w')"
    by (cases "call_do_poll core d (UNVME_TIMEOUT core) (t_world s)")
  define s0 where "s0 = s\<lparr>t_world := w'\<rparr>"
  have ev: "events w' = events (t_world s) @ [Poll_call d (UNVME_TIMEOUT core) r]"
    using events_call_do_poll [of core d "UNVME_TIMEOUT core" "t_world s"] p by simp
  have inv0: "trace_inv w a s0"
    using inv ev unfolding trace_inv_def s0_def
    by (auto simp: submitted_append) (auto simp: submitted_def)
  have s0_fields: "t_i s0 = t_i s" "t_pending s0 = t_pending s" "t_j s0 = t_j s"
    by (simp_all add: s0_def)
  {
    assume a1: "poll_slot core a d s = Inr s1"
    show "trace_inv w a s1 \<and>
           (t_pending s1 = t_pending s \<or>
            (t_pending s1 = t_pending s - 1 \<and> nrequests (a_ns a) (a_nlb a) \<le> t_i s1))"
    proof (cases "r = 0")
      case False
      with a1 p have "s1 = s0" by (simp add: poll_slot_def s0_def)
      with inv0 s0_fields show ?thesis by simp
    next
      case True
      show ?thesis
      proof (cases "t_i s0 < nrequests (a_ns a) (a_nlb a)")
        case lt: True
        from a1 p True lt obtain s' where
          sub: "submit_read core a (t_j s0) s0 = Inr s'" and s1: "s1 = s'\<lparr>t_i := t_i s0 + 1\<rparr>"
          by (auto simp: poll_slot_def s0_def Let_def split: sum.splits if_splits)
        from submit_read_step(1) [OF inv0 lt, of core "t_j s0" s' e] sub
        have "trace_inv w a s1" by (simp add: s1)
        moreover have "t_pending s1 = t_pending s"
          using submit_read_events(3) [of core a "t_j s0" s0 s' e] sub s0_fields s1
          by simp
        ultimately show ?thesis by simp
      next
        case ge: False
        from a1 p True ge obtain ds where
          s1: "s1 = s0\<lparr>t_desc := ds, t_pending := t_pending s0 - 1\<rparr>"
          by (auto simp: poll_slot_def s0_def Let_def split: sum.splits if_splits)
        have "trace_inv w a s1" using inv0 by (simp add: trace_inv_def s1)
        with ge s1 s0_fields show ?thesis by simp
      qed
    qed
  }
  {
    assume a2: "poll_slot core a d s = Inl (e, s1)"
    show "trace_pre w a (t_world s1)"
    proof (cases "r = 0 \<and> t_i s0 < nrequests (a_ns a) (a_nlb a)")
      case True
      with a2 p have "submit_read core a (t_j s0) s0 = Inl (e, s1)
          \<or> (\<exists>s'. submit_read core a (t_j s0) s0 = Inr s' \<and> t_world s1 = t_world s')"
        by (auto simp: poll_slot_def s0_def Let_def split: sum.splits if_splits)
      then show ?thesis
        using submit_read_step(2) [OF inv0, of core "t_j s0"] True
        by (metis)
    next
      case False
      with a2 p have "s1 = s0"
        by (auto simp: poll_slot_def s0_def Let_def split: sum.splits if_splits)
      with inv0 show ?thesis by (simp add: trace_inv_pre)
    qed
  }
qed

lemma poll_window_trace:
  assumes "trace_inv w a s" and "poll_window core a n s = (res, s')"
  shows "trace_pre w a (t_world s') \<and>
         (\<forall>r. res = Returned r \<longrightarrow> 0 < t_pending s \<longrightarrow>
              trace_inv w a s' \<and> nrequests (a_ns a) (a_nlb a) \<le> t_i s')"
  using assms
proof (induction n arbitrary: s)
  case 0
  then show ?case by (simp add: trace_inv_pre)
next
  case (Suc n)
  note inv = Suc.prems(1) and run = Suc.prems(2)
  show ?case
  proof (cases "read_slot (t_desc s) (t_j s)")
    case (Inl e)
    with run inv show ?thesis by (auto simp: trace_inv_pre)
  next
    case (Inr p)
    define body where "body = (case p of None \<Rightarrow> Inr s | Some d \<Rightarrow> poll_slot core a d s)"
    show ?thesis
    proof (cases body)
      case (Inl es)
      obtain e s0 where es: "es = (e, s0)" by (cases es)
      from Inl es have "\<exists>d. poll_slot core a d s = Inl (e, s0)"
        by (auto simp: body_def split: option.splits)
      then have "trace_pre w a (t_world s0)"
        using poll_slot_step(2) [OF inv] by blast
      moreover from run Inr Inl es have "res = Fault e" "s' = s0"
        by (simp_all add: body_def)
      ultimately show ?thesis by auto
    next
      case (Inr s1)
      have step: "trace_inv w a s1 \<and>
           (t_pending s1 = t_pending s \<or>
            (t_pending s1 = t_pending s - 1 \<and> nrequests (a_ns a) (a_nlb a) \<le> t_i s1))"
      proof (cases p)
        case None
        with Inr have "s1 = s" by (simp add: body_def)
        with inv show ?thesis by simp
      next
        case (Some d)
        with Inr have "poll_slot core a d s = Inr s1" by (simp add: body_def)
        from poll_slot_step(1) [OF inv this] show ?thesis .
      qed
      show ?thesis
      proof (cases "t_j s1 \<ge> int_max")
        case True
        with run \<open>read_slot (t_desc s) (t_j s) = Inr p\<close> Inr
        have "res = Fault Int_overflow" "s' = s1"
          by (simp_all add: body_def)
        with step show ?thesis by (auto simp: trace_inv_pre)
      next
        case False
        define s2 where "s2 = s1\<lparr>t_j := (if int (t_j s1 + 1) = maxj (a_ns a) (a_nlb a)
                                       then 0 else t_j s1 + 1)\<rparr>"
        have inv2: "trace_inv w a s2" using step by (simp add: trace_inv_def s2_def)
        have f2: "t_pending s2 = t_pending s1" "t_i s2 = t_i s1" by (simp_all add: s2_def)
        from run \<open>read_slot (t_desc s) (t_j s) = Inr p\<close> Inr False
        have run2: "(if t_pending s2 > 0 then poll_window core a n s2 else (Returned 0, s2))
                     = (res, s')"
          by (auto simp add: body_def s2_def Let_def split: if_splits)
        show ?thesis
        proof (cases "t_pending s2 > 0")
          case True
          with run2 have "poll_window core a n s2 = (res, s')" by simp
          from Suc.IH [OF inv2 this] True show ?thesis by simp
        next
          case False
          with run2 have r: "res = Returned 0" "s' = s2" by simp_all
          from False f2 step have "0 < t_pending s \<longrightarrow> nrequests (a_ns a) (a_nlb a) \<le> t_i s2"
            by auto
          with r inv2 show ?thesis by (simp add: trace_inv_pre)
        qed
      qed
    qed
  qed
qed

lemma fill_window_trace:
  "trace_inv w a s \<Longrightarrow>
     (\<forall>s1. fill_window core a s = Inr s1 \<longrightarrow> trace_inv w a s1) \<and>
     (\<forall>e s1. fill_window core a s = Inl (e, s1) \<longrightarrow> trace_pre w a (t_world s1))"
proof (induction core a s rule: fill_window.induct)
  case (1 core a s)
  note inv = "1.prems"
  show ?case
  proof (cases "t_i s < maxiopq (a_ns a) \<and> \<not> t_i s \<ge> nrequests (a_ns a) (a_nlb a)")
    case False
    then have "fill_window core a s = Inr s"
      by (subst fill_window.simps) auto
    with inv show ?thesis by simp
  next
    case True
    then have lt: "t_i s < nrequests (a_ns a) (a_nlb a)" by simp
    show ?thesis
    proof (cases "submit_read core a (t_i s) s")
      case (Inl es)
      obtain e s0 where es: "es = (e, s0)" by (cases es)
      from True Inl es have "fill_window core a s = Inl (e, s0)"
        by (subst fill_window.simps) simp
      moreover have "trace_pre w a (t_world s0)"
        using submit_read_step(2) [OF inv lt, of core "t_i s" s0 e] Inl es by simp
      ultimately show ?thesis by simp
    next
      case (Inr s1)
      have pre1: "trace_pre w a (t_world s1)"
        and inv1: "trace_inv w a (s1\<lparr>t_i := t_i s + 1\<rparr>)"
        using submit_read_step [OF inv lt, of core "t_i s" s1 Int_overflow] Inr by simp_all
      show ?thesis
      proof (cases "t_i s \<ge> int_max")
        case ov: True
        with True Inr have "fill_window core a s = Inl (Int_overflow, s1)"
          by (subst fill_window.simps) simp
        with pre1 show ?thesis by simp
      next
        case no: False
        with True Inr have "fill_window core a s = fill_window core a (s1\<lparr>t_i := t_i s + 1\<rparr>)"
          by (subst fill_window.simps) simp
        moreover from "1.IH" [of s1] True Inr no inv1
        have "(\<forall>s2. fill_window core a (s1\<lparr>t_i := t_i s + 1\<rparr>) = Inr s2 \<longrightarrow> trace_inv w a s2) \<and>
              (\<forall>e s2. fill_window core a (s1\<lparr>t_i := t_i s + 1\<rparr>) = Inl (e, s2)
                   \<longrightarrow> trace_pre w a (t_world s2))"
          by simp
        ultimately show ?thesis by simp
      qed
    qed
  qed
qed

lemma translate_region_trace:
  fixes ns qid buf slba nlb config_nlb
  defines "a \<equiv> \<lparr>a_ns = ns, a_qid = qid, a_buf = buf, a_slba = slba, a_nlb = nlb,
                  a_config_nlb = config_nlb\<rparr>"
  assumes mb: "maxbpio ns \<noteq> 0" and nr: "1 \<le> nrequests ns nlb"
    and run: "unvme_translate_region core ns qid buf slba nlb config_nlb fuel w = (res, w')"
  shows "trace_pre w a w' \<and>
         (\<forall>r. res = Returned r \<longrightarrow>
            (\<exists>es. events w' = events w @ es \<and> submitted es = expected_trace a (nrequests ns nlb)))"
proof -
  obtain r0 w1 where sub: "call_rw_extended core ns qid NVME_CMD_WRITE buf slba config_nlb 1 w = (r0, w1)"
    by (cases "call_rw_extended core ns qid NVME_CMD_WRITE buf slba config_nlb 1 w")
  have ev1: "events w1 = events w @ [Rw_extended_call qid NVME_CMD_WRITE buf slba config_nlb 1 r0]"
    using events_call_rw_extended [of core ns qid NVME_CMD_WRITE buf slba config_nlb 1 w] sub
    by simp
  have sub1: "submitted [Rw_extended_call qid NVME_CMD_WRITE buf slba config_nlb 1 r0] =
                expected_trace a 1"
    by (simp add: submitted_def expected_trace_def a_def)
  have a_fields: "a_ns a = ns" "a_nlb a = nlb" by (simp_all add: a_def)
  have pre1: "trace_pre w a w1"
    unfolding trace_pre_def using ev1 sub1 nr a_fields
    by (metis One_nat_def Suc_le_lessD)
  show ?thesis
  proof (cases "write_slot (replicate (maxiopq ns) Indeterminate) 0 r0")
    case (Inl e)
    with run mb sub have "res = Fault e" "w' = w1"
      by (simp_all add: unvme_translate_region_def Let_def)
    with pre1 show ?thesis by simp
  next
    case (Inr ds)
    define s0 :: "'a tr_state" where
      "s0 = \<lparr>t_desc = ds, t_i = 1, t_j = 0, t_pending = 0, t_readOffset = 0, t_world = w1\<rparr>"
    have inv0: "trace_inv w a s0"
      unfolding trace_inv_def using ev1 sub1 nr a_fields by (auto simp: s0_def)
    note fw = fill_window_trace [OF inv0, of core]
    show ?thesis
    proof (cases "fill_window core a s0")
      case (Inl es)
      obtain e s1 where es: "es = (e, s1)" by (cases es)
      with Inl fw have "trace_pre w a (t_world s1)" by simp
      moreover from run mb sub Inr Inl es have "res = Fault e" "w' = t_world s1"
        by (simp_all add: unvme_translate_region_def Let_def a_def s0_def)
      ultimately show ?thesis by simp
    next
      case fill: (Inr s1)
      with fw have inv1: "trace_inv w a s1" by simp
      define s2 where "s2 = s1\<lparr>t_pending := int (t_i s1)\<rparr>"
      have inv2: "trace_inv w a s2" using inv1 by (simp add: trace_inv_def s2_def)
      have pos: "0 < t_pending s2" using inv1 by (simp add: trace_inv_def s2_def)
      obtain s3 where pw: "poll_window core a fuel s2 = (res, s3)" and w': "w' = t_world s3"
        using run mb sub Inr fill
        by (auto simp: unvme_translate_region_def Let_def a_def s0_def s2_def split: prod.splits)
      from poll_window_trace [OF inv2 pw] pos
      have pre: "trace_pre w a (t_world s3)"
        and ret: "\<And>r. res = Returned r \<Longrightarrow>
                    trace_inv w a s3 \<and> nrequests (a_ns a) (a_nlb a) \<le> t_i s3"
        by simp_all
      have "\<exists>es. events w' = events w @ es \<and> submitted es = expected_trace a (nrequests ns nlb)"
        if "res = Returned r" for r
      proof -
        from ret [OF that] have "t_i s3 = nrequests ns nlb"
          and "\<exists>es. events (t_world s3) = events w @ es \<and> submitted es = expected_trace a (t_i s3)"
          by (auto simp: trace_inv_def a_fields)
        then show ?thesis by (simp add: w')
      qed
      with pre w' show ?thesis by simp
    qed
  qed
qed

lemma div_of_multiple_plus: "k < (m::nat) \<Longrightarrow> (q * m + k) div m = q"
  by simp

lemma ceil_div_eq:
  assumes m: "0 < m"
  shows "ceil_div n m = n div m + (if n mod m \<noteq> 0 then 1 else 0)"
proof (cases "n mod m = 0")
  case True
  have "n = (n div m) * m + n mod m" by simp
  with True have "n = (n div m) * m" by simp
  then have "n + m - 1 = (n div m) * m + (m - 1)" using m by linarith
  moreover have "m - 1 < m" using m by simp
  ultimately have "(n + m - 1) div m = n div m" using div_of_multiple_plus by metis
  with True show ?thesis by (simp add: ceil_div_def)
next
  case False
  define q where "q = n div m"
  define r where "r = n mod m"
  have r: "0 < r" "r < m" and nq: "n = q * m + r"
    using False m by (simp_all add: q_def r_def)
  have "n + m - 1 = (q + 1) * m + (r - 1)" using r nq by (simp add: algebra_simps)
  moreover have "r - 1 < m" using r by simp
  ultimately have "(n + m - 1) div m = q + 1" using div_of_multiple_plus by metis
  with False show ?thesis by (simp add: q_def ceil_div_def)
qed

lemma length_spec_read_sizes:
  "0 < mb \<Longrightarrow> length (spec_read_sizes nlb mb) = ceil_div nlb mb"
  by (simp add: spec_read_sizes_def ceil_div_eq)

lemma sum_spec_read_sizes: "sum_list (spec_read_sizes nlb mb) = nlb"
proof -
  have "nlb div mb * mb + nlb mod mb = nlb" by simp
  then show ?thesis
    by (auto simp: spec_read_sizes_def sum_list_replicate)
qed

lemma map_const_replicate:
  "\<forall>i \<in> set xs. f i = c \<Longrightarrow> map f xs = replicate (length xs) c"
  by (induction xs) auto

lemma nrequests_no_wrap:
  assumes "0 < maxbpio ns" and "ceil_div nlb (maxbpio ns) + 1 < 4294967296"
  shows "nrequests ns nlb = ceil_div nlb (maxbpio ns) + 1"
  using assms by (simp add: nrequests_def u32_def ceil_div_eq)

lemma ceil_div_bound:
  assumes nlb: "nlb < 4294967296" and mb: "0 < mb"
    and corner: "\<not> (nlb = 4294967295 \<and> mb = 1)"
  shows "ceil_div nlb mb + 1 < 4294967296"
proof (cases "mb = 1")
  case True
  with corner nlb show ?thesis by (simp add: ceil_div_def)
next
  case False
  with mb have "2 \<le> mb" by simp
  then have "nlb div mb \<le> nlb div 2" by (simp add: div_le_mono2)
  also have "\<dots> < 2147483648" using nlb by simp
  finally show ?thesis using mb by (simp add: ceil_div_eq)
qed

lemma read_sizes_eq_spec:
  assumes mb: "0 < maxbpio ns" and nw: "ceil_div nlb (maxbpio ns) + 1 < 4294967296"
  shows "map (read_nlb ns nlb) [1..<nrequests ns nlb] = spec_read_sizes nlb (maxbpio ns)"
proof -
  define q where "q = nlb div maxbpio ns"
  note nr = nrequests_no_wrap [OF mb nw]
  have last: "u32 (nrequests ns nlb + 4294967295) = nrequests ns nlb - 1"
    using nw nr by (simp add: u32_def)
  show ?thesis
  proof (cases "nlb mod maxbpio ns = 0")
    case True
    then have "nrequests ns nlb = q + 1" using nr mb by (simp add: ceil_div_eq q_def)
    moreover have "map (read_nlb ns nlb) [1..<q + 1] = replicate q (maxbpio ns)"
      using map_const_replicate [of "[1..<q + 1]" "read_nlb ns nlb" "maxbpio ns"] True
      by (simp add: read_nlb_def del: upt_Suc)
    ultimately show ?thesis using True by (simp add: spec_read_sizes_def q_def)
  next
    case False
    then have n: "nrequests ns nlb = q + 2" using nr mb by (simp add: ceil_div_eq q_def)
    have "[1..<q + 2] = [1..<q + 1] @ [q + 1]" by simp
    moreover have "map (read_nlb ns nlb) [1..<q + 1] = replicate q (maxbpio ns)"
    proof -
      have "\<forall>i \<in> set [1..<q + 1]. read_nlb ns nlb i = maxbpio ns"
        using last n by (auto simp: read_nlb_def)
      from map_const_replicate [OF this] show ?thesis by (simp del: upt_Suc)
    qed
    moreover have "read_nlb ns nlb (q + 1) = nlb mod maxbpio ns"
      using last n False by (simp add: read_nlb_def)
    ultimately show ?thesis using False n by (simp add: spec_read_sizes_def q_def del: upt_Suc)
  qed
qed

lemma expected_trace_spec:
  assumes mb: "0 < maxbpio (a_ns a)" and nw: "ceil_div (a_nlb a) (maxbpio (a_ns a)) + 1 < 4294967296"
    and m: "m < nrequests (a_ns a) (a_nlb a)"
  shows "expected_trace a (Suc m) =
           (NVME_CMD_WRITE, a_config_nlb a)
             # map (Pair NVME_CMD_READ) (take m (spec_read_sizes (a_nlb a) (maxbpio (a_ns a))))"
proof -
  have "[1..<Suc m] = take m [1..<nrequests (a_ns a) (a_nlb a)]"
    using m by (simp add: take_upt del: upt_Suc)
  then have "map (read_nlb (a_ns a) (a_nlb a)) [1..<Suc m] =
               take m (spec_read_sizes (a_nlb a) (maxbpio (a_ns a)))"
    using read_sizes_eq_spec [OF mb nw] by (metis take_map)
  then show ?thesis
    unfolding expected_trace_def
    by (metis (no_types, lifting) map_map comp_def map_eq_conv)
qed

text \<open>
  C2, as amended. For every call of \<^verbatim>\<open>unvme_translate_region\<close> with
  \<open>1 \<le> nlb < 2^32\<close> and \<open>maxbpio \<ge> 1\<close>, except \<open>nlb = 2^32 - 1\<close> with
  \<open>maxbpio = 1\<close>: the request count is \<open>ceil (nlb / maxbpio) + 1\<close>; the reads the
  specification words (full reads of \<open>maxbpio\<close> blocks, then the remainder
  \<open>nlb mod maxbpio\<close> when it is not 0) are \<open>ceil (nlb / maxbpio)\<close> many and their
  block counts sum to \<open>nlb\<close>; whatever the core answers and however the call ends,
  its extended submissions are the config write first and then an initial part
  of these reads, in order; and when the call returns, they are the config
  write followed by all of these reads.
\<close>

theorem translate_region_submissions:
  assumes "1 \<le> nlb" and "nlb < 4294967296" and "1 \<le> maxbpio ns"
    and "\<not> (nlb = 4294967295 \<and> maxbpio ns = 1)"
  shows "nrequests ns nlb = ceil_div nlb (maxbpio ns) + 1
     \<and> length (spec_read_sizes nlb (maxbpio ns)) = ceil_div nlb (maxbpio ns)
     \<and> sum_list (spec_read_sizes nlb (maxbpio ns)) = nlb
     \<and> (\<exists>es m.
           events (snd (unvme_translate_region core ns qid buf slba nlb config_nlb fuel w)) =
             events w @ es
           \<and> submitted es =
               (NVME_CMD_WRITE, config_nlb)
                 # map (Pair NVME_CMD_READ) (take m (spec_read_sizes nlb (maxbpio ns))))
     \<and> (\<forall>r. fst (unvme_translate_region core ns qid buf slba nlb config_nlb fuel w) = Returned r
           \<longrightarrow> (\<exists>es.
                 events (snd (unvme_translate_region core ns qid buf slba nlb config_nlb fuel w)) =
                   events w @ es
                 \<and> submitted es =
                     (NVME_CMD_WRITE, config_nlb)
                       # map (Pair NVME_CMD_READ) (spec_read_sizes nlb (maxbpio ns))))"
proof -
  define a where "a = \<lparr>a_ns = ns, a_qid = qid, a_buf = buf, a_slba = slba, a_nlb = nlb,
                        a_config_nlb = config_nlb\<rparr>"
  have a_fields: "a_ns a = ns" "a_nlb a = nlb" "a_config_nlb a = config_nlb"
    by (simp_all add: a_def)
  have mb: "0 < maxbpio ns" using assms(3) by simp
  have nw: "ceil_div nlb (maxbpio ns) + 1 < 4294967296"
    using ceil_div_bound [OF assms(2) mb assms(4)] .
  have nr: "nrequests ns nlb = ceil_div nlb (maxbpio ns) + 1"
    using nrequests_no_wrap [OF mb nw] .
  obtain res w' where run:
    "unvme_translate_region core ns qid buf slba nlb config_nlb fuel w = (res, w')"
    by (cases "unvme_translate_region core ns qid buf slba nlb config_nlb fuel w")
  have "maxbpio ns \<noteq> 0" "1 \<le> nrequests ns nlb" using mb nr by simp_all
  from translate_region_trace [OF this run]
  have pre: "trace_pre w a w'"
    and ret: "\<And>r. res = Returned r \<Longrightarrow>
                \<exists>es. events w' = events w @ es \<and> submitted es = expected_trace a (nrequests ns nlb)"
    by (simp_all add: a_def)
  from pre obtain es m where es: "events w' = events w @ es" "m < nrequests ns nlb"
    "submitted es = expected_trace a (Suc m)"
    by (auto simp: trace_pre_def a_fields)
  have spec: "expected_trace a (Suc k) =
                (NVME_CMD_WRITE, config_nlb)
                  # map (Pair NVME_CMD_READ) (take k (spec_read_sizes nlb (maxbpio ns)))"
    if "k < nrequests ns nlb" for k
    using expected_trace_spec [of a k] that mb nw by (simp add: a_fields)
  have part: "\<exists>es m. events w' = events w @ es
       \<and> submitted es = (NVME_CMD_WRITE, config_nlb)
                 # map (Pair NVME_CMD_READ) (take m (spec_read_sizes nlb (maxbpio ns)))"
    using es spec by metis
  have full: "\<exists>es. events w' = events w @ es
       \<and> submitted es = (NVME_CMD_WRITE, config_nlb)
                 # map (Pair NVME_CMD_READ) (spec_read_sizes nlb (maxbpio ns))"
    if "res = Returned r" for r
  proof -
    from ret [OF that] obtain es' where es': "events w' = events w @ es'"
      "submitted es' = expected_trace a (nrequests ns nlb)" by blast
    have "expected_trace a (nrequests ns nlb) = expected_trace a (Suc (ceil_div nlb (maxbpio ns)))"
      using nr by simp
    also have "\<dots> = (NVME_CMD_WRITE, config_nlb)
        # map (Pair NVME_CMD_READ) (take (ceil_div nlb (maxbpio ns)) (spec_read_sizes nlb (maxbpio ns)))"
      using spec [of "ceil_div nlb (maxbpio ns)"] nr by simp
    also have "take (ceil_div nlb (maxbpio ns)) (spec_read_sizes nlb (maxbpio ns)) =
                 spec_read_sizes nlb (maxbpio ns)"
      using length_spec_read_sizes [OF mb, of nlb] by simp
    finally show ?thesis using es' by metis
  qed
  show ?thesis
    using nr length_spec_read_sizes [OF mb, of nlb] sum_spec_read_sizes [of nlb "maxbpio ns"]
      part full
    by (simp add: run)
qed

subsection \<open>Translating a region: runs on concrete inputs\<close>

text \<open>
  One iteration of the polling loop for a numeral amount of fuel, and the
  definitions a run unfolds.
\<close>

lemma poll_window_numeral:
  "poll_window core a (numeral k) s = 
     (case read_slot (t_desc s) (t_j s) of
        Inl e \<Rightarrow> (Fault e, s)
      | Inr p \<Rightarrow>
          (case (case p of None \<Rightarrow> Inr s | Some d \<Rightarrow> poll_slot core a d s) of
             Inl (e, s') \<Rightarrow> (Fault e, s')
           | Inr s1 \<Rightarrow>
               if t_j s1 \<ge> int_max then (Fault Int_overflow, s1)
               else
                 let s2 = s1\<lparr>t_j := (if int (t_j s1 + 1) = maxj (a_ns a) (a_nlb a)
                                       then 0 else t_j s1 + 1)\<rparr>
                 in if t_pending s2 > 0 then poll_window core a (pred_numeral k) s2
                    else (Returned 0, s2)))"
  by (simp only: numeral_eq_Suc poll_window.simps)

lemmas run_simps =
  unvme_translate_region_def responsive_core_def world0_def call_rw_extended_def
  call_do_poll_def log_event_def write_slot_def read_slot_def submit_read_def poll_slot_def
  nrequests_def u32_def read_nlb_def maxj_def to_int32_def int_max_def Let_def
  poll_window_numeral

lemma run_4_4:
  "unvme_translate_region (responsive_core ns_4_4) ns_4_4 0 0 0 14 1 20 world0 =
     (Returned 0,
      \<lparr>core_state = 5,
       events =
         [Rw_extended_call 0 NVME_CMD_WRITE 0 0 1 1 (Some 1),
          Rw_extended_call 0 NVME_CMD_READ 0 0 4 1 (Some 2),
          Rw_extended_call 0 NVME_CMD_READ 2048 0 4 1 (Some 3),
          Rw_extended_call 0 NVME_CMD_READ 4096 0 4 1 (Some 4),
          Poll_call 1 60 0,
          Rw_extended_call 0 NVME_CMD_READ 6144 0 2 1 (Some 5),
          Poll_call 2 60 0, Poll_call 3 60 0, Poll_call 4 60 0, Poll_call 5 60 0]\<rparr>)"
  by (simp add: run_simps ns_4_4_def)

lemma run_256_4:
  "unvme_translate_region (responsive_core ns_256_4) ns_256_4 0 0 0 1024 1 20 world0 =
     (Fault (Out_of_bounds 4),
      \<lparr>core_state = 5,
       events =
         [Rw_extended_call 0 NVME_CMD_WRITE 0 0 1 1 (Some 1),
          Rw_extended_call 0 NVME_CMD_READ 0 0 256 1 (Some 2),
          Rw_extended_call 0 NVME_CMD_READ 1048576 0 256 1 (Some 3),
          Rw_extended_call 0 NVME_CMD_READ 2097152 0 256 1 (Some 4),
          Poll_call 1 60 0,
          Rw_extended_call 0 NVME_CMD_READ 3145728 0 256 1 (Some 5),
          Poll_call 2 60 0, Poll_call 3 60 0, Poll_call 4 60 0]\<rparr>)"
  by (simp add: run_simps ns_256_4_def)

lemma run_1_1:
  "unvme_translate_region (responsive_core ns_1_1) ns_1_1 0 0 0 4294967295 1 20 world0 =
     (Returned 0,
      \<lparr>core_state = 1,
       events = [Rw_extended_call 0 NVME_CMD_WRITE 0 0 1 1 (Some 1), Poll_call 1 60 0]\<rparr>)"
  by (simp add: run_simps ns_1_1_def)

lemma run_refusing_4_4:
  "fst (unvme_translate_region (refusing_core ns_4_4) ns_4_4 0 0 0 14 1 20 world0) = Out_of_fuel"
  by (simp add: run_simps refusing_core_def ns_4_4_def)

theorem translate_region_submissions_witness:
  "(1::nat) \<le> 14 \<and> (14::nat) < 4294967296 \<and> 1 \<le> maxbpio ns_4_4
   \<and> nrequests ns_4_4 14 = 5
   \<and> spec_read_sizes 14 (maxbpio ns_4_4) = [4, 4, 4, 2]
   \<and> fst (unvme_translate_region (responsive_core ns_4_4) ns_4_4 0 0 0 14 1 20 world0) = Returned 0
   \<and> (\<exists>es. events (snd (unvme_translate_region (responsive_core ns_4_4) ns_4_4 0 0 0 14 1 20 world0))
             = events world0 @ es
           \<and> submitted es =
               [(NVME_CMD_WRITE, 1), (NVME_CMD_READ, 4), (NVME_CMD_READ, 4),
                (NVME_CMD_READ, 4), (NVME_CMD_READ, 2)])"
proof -
  have h: "(1::nat) \<le> 14" "(14::nat) < 4294967296" "1 \<le> maxbpio ns_4_4"
    "\<not> ((14::nat) = 4294967295 \<and> maxbpio ns_4_4 = 1)"
    by (simp_all add: ns_4_4_def)
  have sizes: "spec_read_sizes 14 (maxbpio ns_4_4) = [4, 4, 4, 2]"
    by (simp add: spec_read_sizes_def ns_4_4_def numeral_3_eq_3)
  have ret: "fst (unvme_translate_region (responsive_core ns_4_4) ns_4_4 0 0 0 14 1 20 world0)
               = Returned 0"
    by (simp only: run_4_4 fst_conv)
  have cd: "ceil_div 14 (maxbpio ns_4_4) + 1 = 5"
    by (simp add: ceil_div_def ns_4_4_def)
  from translate_region_submissions
         [OF h, of "responsive_core ns_4_4" 0 0 0 1 20 world0] ret
  have "nrequests ns_4_4 14 = ceil_div 14 (maxbpio ns_4_4) + 1"
    and "\<exists>es. events (snd (unvme_translate_region (responsive_core ns_4_4) ns_4_4 0 0 0 14 1 20 world0))
             = events world0 @ es
           \<and> submitted es =
               (NVME_CMD_WRITE, 1) # map (Pair NVME_CMD_READ) (spec_read_sizes 14 (maxbpio ns_4_4))"
    by blast+
  with h sizes ret cd show ?thesis by simp
qed

text \<open>
  The exception is needed, for the request count wraps around: with
  \<open>nlb = 2^32 - 1\<close> and \<open>maxbpio = 1\<close> the 32-bit \<^verbatim>\<open>nrequests\<close> is 0, not
  \<open>ceil (nlb / maxbpio) + 1 = 2^32\<close>, and the call returns after the config write
  without submitting any read.
\<close>

theorem translate_region_request_count_wraps:
  "(1::nat) \<le> 4294967295 \<and> 1 \<le> maxbpio ns_1_1
   \<and> nrequests ns_1_1 4294967295 = 0
   \<and> ceil_div 4294967295 (maxbpio ns_1_1) + 1 = 4294967296
   \<and> nrequests ns_1_1 4294967295 \<noteq> ceil_div 4294967295 (maxbpio ns_1_1) + 1
   \<and> fst (unvme_translate_region (responsive_core ns_1_1) ns_1_1 0 0 0 4294967295 1 20 world0)
       = Returned 0
   \<and> submitted (events (snd (unvme_translate_region (responsive_core ns_1_1) ns_1_1 0 0 0
                                4294967295 1 20 world0))) = [(NVME_CMD_WRITE, 1)]"
  unfolding run_1_1
  by (simp add: ns_1_1_def nrequests_def u32_def ceil_div_def submitted_def)

subsection \<open>Translating a region: the return value and the poll index\<close>

lemma poll_window_returns_0:
  "poll_window core a n s = (Returned r, s') \<Longrightarrow> r = 0"
proof (induction n arbitrary: s)
  case 0
  then show ?case by simp
next
  case (Suc n)
  show ?case
  proof (cases "read_slot (t_desc s) (t_j s)")
    case (Inl e)
    with Suc.prems show ?thesis by simp
  next
    case (Inr p)
    show ?thesis
    proof (cases "case p of None \<Rightarrow> Inr s | Some d \<Rightarrow> poll_slot core a d s")
      case (Inl es)
      with Suc.prems Inr show ?thesis by (cases es) simp
    next
      case body: (Inr s1)
      show ?thesis
      proof (cases "t_j s1 \<ge> int_max")
        case True
        with Suc.prems Inr body show ?thesis by simp
      next
        case False
        define s2 where "s2 = s1\<lparr>t_j := (if int (t_j s1 + 1) = maxj (a_ns a) (a_nlb a)
                                       then 0 else t_j s1 + 1)\<rparr>"
        from Suc.prems Inr body False
        have "(if t_pending s2 > 0 then poll_window core a n s2 else (Returned 0, s2))
                = (Returned r, s')"
          by (auto simp add: s2_def Let_def split: if_splits)
        then show ?thesis
          using Suc.IH [of s2] by (cases "t_pending s2 > 0") simp_all
      qed
    qed
  qed
qed

text \<open>
  C10. Whatever the core answers to the submissions and polls, whatever the
  arguments, a call of \<^verbatim>\<open>unvme_translate_region\<close> that returns, returns 0: no
  outcome of a submission or of a poll reaches the return value.
\<close>

theorem translate_region_returns_0:
  "fst (unvme_translate_region core ns qid buf slba nlb config_nlb fuel w) = Returned r \<Longrightarrow> r = 0"
proof -
  assume ret: "fst (unvme_translate_region core ns qid buf slba nlb config_nlb fuel w) = Returned r"
  define a where "a = \<lparr>a_ns = ns, a_qid = qid, a_buf = buf, a_slba = slba, a_nlb = nlb,
                        a_config_nlb = config_nlb\<rparr>"
  obtain r0 w1 where sub:
    "call_rw_extended core ns qid NVME_CMD_WRITE buf slba config_nlb 1 w = (r0, w1)"
    by (cases "call_rw_extended core ns qid NVME_CMD_WRITE buf slba config_nlb 1 w")
  show "r = 0"
  proof (cases "maxbpio ns = 0")
    case True
    with ret show ?thesis by (simp add: unvme_translate_region_def)
  next
    case mb: False
    show ?thesis
    proof (cases "write_slot (replicate (maxiopq ns) Indeterminate) 0 r0")
      case (Inl e)
      with ret mb sub show ?thesis by (simp add: unvme_translate_region_def)
    next
      case (Inr ds)
      define s0 :: "'a tr_state" where
        "s0 = \<lparr>t_desc = ds, t_i = 1, t_j = 0, t_pending = 0, t_readOffset = 0, t_world = w1\<rparr>"
      show ?thesis
      proof (cases "fill_window core a s0")
        case (Inl es)
        with ret mb sub Inr show ?thesis
          by (cases es) (simp add: unvme_translate_region_def a_def s0_def)
      next
        case fill: (Inr s1)
        obtain res s3 where pw: "poll_window core a fuel (s1\<lparr>t_pending := int (t_i s1)\<rparr>) = (res, s3)"
          by (cases "poll_window core a fuel (s1\<lparr>t_pending := int (t_i s1)\<rparr>)")
        with ret mb sub Inr fill have "res = Returned r"
          by (simp add: unvme_translate_region_def a_def s0_def)
        with pw show ?thesis using poll_window_returns_0 by blast
      qed
    qed
  qed
qed

theorem translate_region_returns_0_witness:
  "fst (unvme_translate_region (responsive_core ns_4_4) ns_4_4 0 0 0 14 1 20 world0) = Returned 0
   \<and> fst (unvme_translate_region (refusing_core ns_4_4) ns_4_4 0 0 0 14 1 20 world0) = Out_of_fuel"
proof -
  obtain r where r:
    "fst (unvme_translate_region (responsive_core ns_4_4) ns_4_4 0 0 0 14 1 20 world0) = Returned r"
    by (simp only: run_4_4 fst_conv)
  from translate_region_returns_0 [OF r] have "r = 0" .
  with r run_refusing_4_4 show ?thesis by simp
qed

text \<open>
  C1. In the scenario of a region of 1024 blocks with 256 blocks per I/O and a
  window of 4 descriptors, with every submission accepted and every poll
  completing, the bound \<^verbatim>\<open>maxj\<close> of the poll index is 5, taken from \<^verbatim>\<open>maxbpio\<close> and
  the request count and not from \<^verbatim>\<open>maxiopq\<close>: after polling slots 0 to 3 the
  loop reads \<^verbatim>\<open>desc[4]\<close>, outside the 4 entries allocated.
\<close>

theorem translate_region_polls_outside_window:
  "(1::nat) \<le> 1024 \<and> 1 \<le> maxbpio ns_256_4 \<and> 1 \<le> maxiopq ns_256_4
   \<and> maxiopq ns_256_4 = 4
   \<and> maxj ns_256_4 1024 = 5
   \<and> fst (unvme_translate_region (responsive_core ns_256_4) ns_256_4 0 0 0 1024 1 20 world0)
       = Fault (Out_of_bounds 4)"
  unfolding run_256_4
  by (simp add: ns_256_4_def maxj_def nrequests_def u32_def to_int32_def)

subsection \<open>Translating a region: calls that return\<close>

lemma submit_read_accepting:
  assumes "accepting core" and "k < length (t_desc s)"
  shows "\<exists>d s'. submit_read core a k s = Inr s' \<and> t_desc s' = (t_desc s)[k := Ptr (Some d)]
           \<and> t_i s' = t_i s \<and> t_j s' = t_j s \<and> t_pending s' = t_pending s"
proof -
  obtain r w' where c: "call_rw_extended core (a_ns a) (a_qid a) NVME_CMD_READ
             (a_buf a + t_readOffset s) (a_slba a)
             (read_nlb (a_ns a) (a_nlb a) (t_i s)) 1 (t_world s) = (r, w')"
    by (cases "call_rw_extended core (a_ns a) (a_qid a) NVME_CMD_READ
             (a_buf a + t_readOffset s) (a_slba a)
             (read_nlb (a_ns a) (a_nlb a) (t_i s)) 1 (t_world s)")
  then have "r \<noteq> None"
    using assms(1) unfolding accepting_def call_rw_extended_def
    by (auto split: prod.splits) (metis fst_conv)
  then obtain d where "r = Some d" by auto
  with c assms(2) show ?thesis
    by (auto simp: submit_read_def write_slot_def)
qed

lemma fill_window_fills:
  "accepting core \<Longrightarrow> length (t_desc s) = maxiopq (a_ns a) \<Longrightarrow>
   nrequests (a_ns a) (a_nlb a) \<le> maxiopq (a_ns a) \<Longrightarrow>
   nrequests (a_ns a) (a_nlb a) \<le> int_max \<Longrightarrow>
   t_i s \<le> nrequests (a_ns a) (a_nlb a) \<Longrightarrow>
   filled (t_desc s) 0 (t_i s) \<Longrightarrow>
   \<exists>s'. fill_window core a s = Inr s' \<and> t_i s' = nrequests (a_ns a) (a_nlb a)
           \<and> length (t_desc s') = maxiopq (a_ns a)
           \<and> filled (t_desc s') 0 (nrequests (a_ns a) (a_nlb a))
           \<and> t_j s' = t_j s"
proof (induction core a s rule: fill_window.induct)
  case (1 core a s)
  note acc = "1.prems"(1) and len = "1.prems"(2) and nr = "1.prems"(3,4)
    and i = "1.prems"(5) and f = "1.prems"(6)
  show ?case
  proof (cases "t_i s = nrequests (a_ns a) (a_nlb a)")
    case True
    then have "fill_window core a s = Inr s"
      by (subst fill_window.simps) simp
    with True len f show ?thesis by simp
  next
    case False
    with i have lt: "t_i s < nrequests (a_ns a) (a_nlb a)" by simp
    with nr have lt2: "t_i s < maxiopq (a_ns a)" "\<not> t_i s \<ge> int_max" by simp_all
    from submit_read_accepting [OF acc, of "t_i s" s a] lt2 len
    obtain d s1 where s1: "submit_read core a (t_i s) s = Inr s1"
      "t_desc s1 = (t_desc s)[t_i s := Ptr (Some d)]" "t_i s1 = t_i s" "t_j s1 = t_j s"
      by auto
    define s2 where "s2 = s1\<lparr>t_i := t_i s + 1\<rparr>"
    have step: "fill_window core a s = fill_window core a s2"
      using lt lt2 s1 by (subst fill_window.simps) (simp add: s2_def)
    have "filled (t_desc s2) 0 (t_i s2)"
      using f lt2 len s1
      by (auto simp: filled_def s2_def nth_list_update less_Suc_eq)
    moreover have "length (t_desc s2) = maxiopq (a_ns a)" "t_i s2 \<le> nrequests (a_ns a) (a_nlb a)"
      using len s1 lt by (simp_all add: s2_def)
    ultimately have "\<exists>s'. fill_window core a s2 = Inr s' \<and> t_i s' = nrequests (a_ns a) (a_nlb a)
           \<and> length (t_desc s') = maxiopq (a_ns a)
           \<and> filled (t_desc s') 0 (nrequests (a_ns a) (a_nlb a))
           \<and> t_j s' = t_j s2"
      using "1.IH" [of s1] lt lt2 s1 acc nr by (simp add: s2_def)
    then show ?thesis using step s1 by (simp add: s2_def)
  qed
qed

lemma poll_slot_completing:
  assumes "completing core" and "t_j s < length (t_desc s)"
    and "nrequests (a_ns a) (a_nlb a) \<le> t_i s"
  shows "\<exists>w'. poll_slot core a d s =
           Inr (s\<lparr>t_world := w', t_desc := (t_desc s)[t_j s := Ptr None],
                   t_pending := t_pending s - 1\<rparr>)"
proof -
  obtain r w' where c: "call_do_poll core d (UNVME_TIMEOUT core) (t_world s) = (r, w')"
    by (cases "call_do_poll core d (UNVME_TIMEOUT core) (t_world s)")
  then have "r = 0"
    using assms(1) unfolding completing_def call_do_poll_def
    by (auto split: prod.splits) (metis fst_conv)
  with c assms(2,3) show ?thesis
    by (auto simp: poll_slot_def write_slot_def Let_def)
qed

lemma poll_window_drains:
  "completing core \<Longrightarrow>
   nrequests (a_ns a) (a_nlb a) \<le> t_i s \<Longrightarrow>
   hi \<le> length (t_desc s) \<Longrightarrow> hi \<le> int_max \<Longrightarrow> maxj (a_ns a) (a_nlb a) = int hi \<Longrightarrow>
   t_j s < hi \<Longrightarrow> t_pending s = int (hi - t_j s) \<Longrightarrow>
   filled (t_desc s) (t_j s) hi \<Longrightarrow>
   hi - t_j s \<le> n \<Longrightarrow>
   fst (poll_window core a n s) = Returned 0"
proof (induction n arbitrary: s)
  case 0
  then show ?case by simp
next
  case (Suc n)
  note comp = Suc.prems(1) and i = Suc.prems(2) and len = Suc.prems(3) and hi = Suc.prems(4)
    and mj = Suc.prems(5) and j = Suc.prems(6) and pend = Suc.prems(7) and f = Suc.prems(8)
  from f j obtain d where d: "t_desc s ! t_j s = Ptr (Some d)"
    by (auto simp: filled_def)
  with j len have rs: "read_slot (t_desc s) (t_j s) = Inr (Some d)"
    by (simp add: read_slot_def)
  from poll_slot_completing [OF comp _ i, of d] j len obtain w' where
    ps: "poll_slot core a d s =
           Inr (s\<lparr>t_world := w', t_desc := (t_desc s)[t_j s := Ptr None],
                   t_pending := t_pending s - 1\<rparr>)"
    by auto
  define s1 where "s1 = s\<lparr>t_world := w', t_desc := (t_desc s)[t_j s := Ptr None],
                   t_pending := t_pending s - 1\<rparr>"
  define s2 where "s2 = s1\<lparr>t_j := (if int (t_j s1 + 1) = maxj (a_ns a) (a_nlb a)
                                       then 0 else t_j s1 + 1)\<rparr>"
  have nov: "\<not> t_j s1 \<ge> int_max" using j hi by (simp add: s1_def)
  have unfold: "poll_window core a (Suc n) s =
      (if t_pending s2 > 0 then poll_window core a n s2 else (Returned 0, s2))"
    using rs ps nov by (simp add: s1_def s2_def Let_def)
  show ?case
  proof (cases "t_j s + 1 = hi")
    case True
    then have "t_pending s2 = 0" using pend by (simp add: s2_def s1_def)
    with unfold show ?thesis by simp
  next
    case False
    with j have j2: "t_j s + 1 < hi" by simp
    then have tj: "t_j s2 = t_j s + 1" using mj by (simp add: s2_def s1_def)
    have p2: "t_pending s2 = int (hi - t_j s2)" using pend j2 tj by (simp add: s2_def s1_def)
    then have pos: "t_pending s2 > 0" using j2 tj by simp
    have f2: "filled (t_desc s2) (t_j s2) hi"
      using f tj by (auto simp: filled_def s2_def s1_def nth_list_update)
    have "fst (poll_window core a n s2) = Returned 0"
    proof (rule Suc.IH [OF comp _ _ hi mj _ p2 f2])
      show "nrequests (a_ns a) (a_nlb a) \<le> t_i s2" using i by (simp add: s2_def s1_def)
      show "hi \<le> length (t_desc s2)" using len by (simp add: s2_def s1_def)
      show "t_j s2 < hi" using j2 tj by simp
      show "hi - t_j s2 \<le> n" using Suc.prems(9) tj by simp
    qed
    with unfold pos show ?thesis by simp
  qed
qed


lemma call_rw_extended_accepting:
  "accepting core \<Longrightarrow> \<exists>d w'. call_rw_extended core ns qid opc buf slba nlb flag w = (Some d, w')"
  unfolding accepting_def call_rw_extended_def
  by (cases "unvme_rw_extended core ns qid opc buf slba nlb flag (core_state w)")
     (metis (mono_tags, lifting) case_prod_conv fst_conv option.exhaust)

text \<open>
  A call whose requests all fit in the window returns: with a core that accepts
  every submission and completes every poll, a request count of at least 1 and
  at most \<^verbatim>\<open>maxiopq\<close> and \<^verbatim>\<open>maxbpio\<close>, the polling loop ends after as many
  iterations as there are requests, and the call returns 0.
\<close>

lemma translate_region_returns_when_window_fits:
  assumes acc: "accepting core" and comp: "completing core"
    and mb: "0 < maxbpio ns"
    and nr: "1 \<le> nrequests ns nlb" "nrequests ns nlb \<le> maxiopq ns"
      "nrequests ns nlb \<le> maxbpio ns" "nrequests ns nlb \<le> int_max"
    and fuel: "nrequests ns nlb \<le> fuel"
  shows "fst (unvme_translate_region core ns qid buf slba nlb config_nlb fuel w) = Returned 0"
proof -
  define a where "a = \<lparr>a_ns = ns, a_qid = qid, a_buf = buf, a_slba = slba, a_nlb = nlb,
                        a_config_nlb = config_nlb\<rparr>"
  have af: "a_ns a = ns" "a_nlb a = nlb" by (simp_all add: a_def)
  from call_rw_extended_accepting [OF acc] obtain d w1 where
    sub: "call_rw_extended core ns qid NVME_CMD_WRITE buf slba config_nlb 1 w = (Some d, w1)"
    by blast
  define ds where "ds = (replicate (maxiopq ns) Indeterminate)[0 := Ptr (Some d)]"
  have ws: "write_slot (replicate (maxiopq ns) Indeterminate) 0 (Some d) = Inr ds"
    using nr(1,2) by (simp add: write_slot_def ds_def)
  define s0 :: "'a tr_state" where
    "s0 = \<lparr>t_desc = ds, t_i = 1, t_j = 0, t_pending = 0, t_readOffset = 0, t_world = w1\<rparr>"
  have "filled (t_desc s0) 0 (t_i s0)"
    using nr(1,2) by (simp add: filled_def s0_def ds_def)
  moreover have "length (t_desc s0) = maxiopq (a_ns a)" "t_i s0 \<le> nrequests (a_ns a) (a_nlb a)"
    using nr(1) by (simp_all add: s0_def ds_def af)
  ultimately obtain s1 where s1: "fill_window core a s0 = Inr s1"
    "t_i s1 = nrequests ns nlb" "length (t_desc s1) = maxiopq ns"
    "filled (t_desc s1) 0 (nrequests ns nlb)" "t_j s1 = 0"
    using fill_window_fills [OF acc, of s0 a] nr by (auto simp: af s0_def)
  define s2 where "s2 = s1\<lparr>t_pending := int (t_i s1)\<rparr>"
  have mj: "maxj (a_ns a) (a_nlb a) = int (nrequests ns nlb)"
    using nr(3,4) by (simp add: maxj_def af to_int32_def int_max_def)
  have "fst (poll_window core a fuel s2) = Returned 0"
  proof (rule poll_window_drains [OF comp _ _ nr(4) mj])
    show "nrequests (a_ns a) (a_nlb a) \<le> t_i s2" using s1 by (simp add: s2_def af)
    show "nrequests ns nlb \<le> length (t_desc s2)" using s1 nr(2) by (simp add: s2_def)
    show "t_j s2 < nrequests ns nlb" using s1 nr(1) by (simp add: s2_def)
    show "t_pending s2 = int (nrequests ns nlb - t_j s2)" using s1 by (simp add: s2_def)
    show "filled (t_desc s2) (t_j s2) (nrequests ns nlb)" using s1 by (simp add: s2_def)
    show "nrequests ns nlb - t_j s2 \<le> fuel" using fuel by simp
  qed
  moreover have "unvme_translate_region core ns qid buf slba nlb config_nlb fuel w =
      (case poll_window core a fuel s2 of (res, s3) \<Rightarrow> (res, t_world s3))"
    using mb sub ws s1(1)
    by (simp add: unvme_translate_region_def Let_def a_def s0_def s2_def
          del: fill_window.simps)
  ultimately show ?thesis by (simp split: prod.splits)
qed

subsection \<open>Opening: the PCI name\<close>










subsection \<open>Polling\<close>

declare sweep.simps [simp del]

lemma complete_other: "cqe_cid c \<noteq> d \<Longrightarrow> complete c tab d = tab d"
  by (simp add: complete_def split: option.splits iod_status.splits)

lemma complete_self:
  "tab (cqe_cid c) = Some PENDING \<Longrightarrow>
     complete c tab (cqe_cid c) = Some (if cqe_status c = 0 then OK else ERR (cqe_status c))"
  by (simp add: complete_def)

lemma sweep_complete: "is_complete (iods dv d) \<Longrightarrow> sweep d deadline dv = dv"
  by (subst sweep.simps) simp

lemma sweep_step:
  "\<not> is_complete (iods dv d) \<Longrightarrow> cq dv = c # cs \<Longrightarrow> cqe_time c \<le> deadline \<Longrightarrow>
     sweep d deadline dv =
       sweep d deadline (dv\<lparr>clock := max (clock dv) (cqe_time c),
                            iods := complete c (iods dv), cq := cs\<rparr>)"
  by (subst sweep.simps) simp

lemma sweep_stop:
  "\<not> is_complete (iods dv d) \<Longrightarrow> cq dv = c # cs \<Longrightarrow> deadline < cqe_time c \<Longrightarrow>
     sweep d deadline dv = dv\<lparr>clock := deadline\<rparr>"
  by (subst sweep.simps) simp

lemma sweep_empty:
  "\<not> is_complete (iods dv d) \<Longrightarrow> cq dv = [] \<Longrightarrow> sweep d deadline dv = dv\<lparr>clock := deadline\<rparr>"
  by (subst sweep.simps) simp

lemma pending_not_complete: "st = Some PENDING \<Longrightarrow> \<not> is_complete st"
  by (simp add: is_complete_def)

text \<open>The completion of \<open>d\<close> arrives within the budget.\<close>

lemma sweep_arrives:
  assumes "iods dv d = Some PENDING" and "cq dv = pre @ c # post" and "cqe_cid c = d"
    and "\<forall>x \<in> set pre. cqe_cid x \<noteq> d \<and> cqe_time x \<le> cqe_time c"
    and "cqe_time c \<le> deadline"
  shows "iods (sweep d deadline dv) d = Some (if cqe_status c = 0 then OK else ERR (cqe_status c))"
  using assms
proof (induction pre arbitrary: dv)
  case Nil
  define dv1 where "dv1 = dv\<lparr>clock := max (clock dv) (cqe_time c),
                            iods := complete c (iods dv), cq := post\<rparr>"
  have "sweep d deadline dv = sweep d deadline dv1"
    unfolding dv1_def using Nil by (intro sweep_step) (simp_all add: pending_not_complete)
  moreover have st: "iods dv1 d = Some (if cqe_status c = 0 then OK else ERR (cqe_status c))"
    using Nil complete_self [of "iods dv" c] by (simp add: dv1_def)
  then have "is_complete (iods dv1 d)" by (simp add: is_complete_def)
  ultimately show ?case using st by (simp add: sweep_complete)
next
  case (Cons x pre)
  define dv1 where "dv1 = dv\<lparr>clock := max (clock dv) (cqe_time x),
                            iods := complete x (iods dv), cq := pre @ c # post\<rparr>"
  have "sweep d deadline dv = sweep d deadline dv1"
    unfolding dv1_def using Cons.prems by (intro sweep_step) (simp_all add: pending_not_complete)
  moreover have "iods dv1 d = Some PENDING" "cq dv1 = pre @ c # post"
    using Cons.prems by (simp_all add: dv1_def complete_other)
  ultimately show ?case using Cons.IH [of dv1] Cons.prems by simp
qed

text \<open>The completion of \<open>d\<close> arrives after the budget is spent.\<close>

lemma sweep_times_out:
  assumes "iods dv d = Some PENDING" and "cq dv = pre @ c # post" and "cqe_cid c = d"
    and "\<forall>x \<in> set pre. cqe_cid x \<noteq> d"
    and "deadline < cqe_time c"
  shows "iods (sweep d deadline dv) d = Some PENDING
       \<and> clock (sweep d deadline dv) = deadline
       \<and> (\<exists>pre'. cq (sweep d deadline dv) = pre' @ c # post \<and> set pre' \<subseteq> set pre)"
  using assms
proof (induction pre arbitrary: dv)
  case Nil
  then have "sweep d deadline dv = dv\<lparr>clock := deadline\<rparr>"
    by (intro sweep_stop) (simp_all add: pending_not_complete)
  with Nil show ?case by simp
next
  case (Cons x pre)
  show ?case
  proof (cases "cqe_time x \<le> deadline")
    case True
    define dv1 where "dv1 = dv\<lparr>clock := max (clock dv) (cqe_time x),
                            iods := complete x (iods dv), cq := pre @ c # post\<rparr>"
    have "sweep d deadline dv = sweep d deadline dv1"
      unfolding dv1_def using Cons.prems True
      by (intro sweep_step) (simp_all add: pending_not_complete)
    moreover have "iods dv1 d = Some PENDING" "cq dv1 = pre @ c # post"
      using Cons.prems by (simp_all add: dv1_def complete_other)
    ultimately show ?thesis using Cons.IH [of dv1] Cons.prems by auto
  next
    case False
    then have "sweep d deadline dv = dv\<lparr>clock := deadline\<rparr>"
      using Cons.prems sweep_stop [of dv d x "pre @ c # post" deadline]
      by (simp add: pending_not_complete)
    with Cons.prems show ?thesis by auto
  qed
qed

text \<open>No completion of \<open>d\<close> is posted.\<close>

lemma sweep_nothing:
  assumes "iods dv d = Some PENDING" and "\<forall>x \<in> set (cq dv). cqe_cid x \<noteq> d"
  shows "iods (sweep d deadline dv) d = Some PENDING"
  using assms
proof (induction "cq dv" arbitrary: dv)
  case Nil
  then have "sweep d deadline dv = dv\<lparr>clock := deadline\<rparr>"
    by (intro sweep_empty) (simp_all add: pending_not_complete)
  with Nil show ?case by simp
next
  case (Cons x xs)
  show ?case
  proof (cases "cqe_time x \<le> deadline")
    case True
    define dv1 where "dv1 = dv\<lparr>clock := max (clock dv) (cqe_time x),
                            iods := complete x (iods dv), cq := xs\<rparr>"
    have "sweep d deadline dv = sweep d deadline dv1"
      unfolding dv1_def using Cons.prems Cons.hyps(2) [symmetric] True
      by (intro sweep_step) (simp_all add: pending_not_complete)
    moreover have "iods dv1 d = Some PENDING" "xs = cq dv1" "\<forall>x \<in> set (cq dv1). cqe_cid x \<noteq> d"
      using Cons.prems Cons.hyps(2) [symmetric] by (simp_all add: dv1_def complete_other)
    ultimately show ?thesis using Cons.hyps(1) [of dv1] by simp
  next
    case False
    then have "sweep d deadline dv = dv\<lparr>clock := deadline\<rparr>"
      using Cons.prems Cons.hyps(2) [symmetric] sweep_stop [of dv d x xs deadline]
      by (simp add: pending_not_complete)
    with Cons.prems show ?thesis by simp
  qed
qed

lemma poll_spec_arrives:
  assumes "iods dv d = Some PENDING" and "cq dv = pre @ c # post" and "cqe_cid c = d"
    and "\<forall>x \<in> set pre. cqe_cid x \<noteq> d \<and> cqe_time x \<le> cqe_time c"
    and "cqe_time c \<le> clock dv + nat timeout"
  shows "fst (unvme_do_poll_spec d timeout dv) = int (cqe_status c)"
    and "iods (snd (unvme_do_poll_spec d timeout dv)) d = None"
  using sweep_arrives [OF assms]
  by (simp_all add: unvme_do_poll_spec_def Let_def)

lemma poll_spec_times_out:
  assumes "iods dv d = Some PENDING" and "cq dv = pre @ c # post" and "cqe_cid c = d"
    and "\<forall>x \<in> set pre. cqe_cid x \<noteq> d"
    and "clock dv + nat timeout < cqe_time c"
  shows "fst (unvme_do_poll_spec d timeout dv) = - 1"
    and "iods (snd (unvme_do_poll_spec d timeout dv)) d = Some PENDING"
    and "clock (snd (unvme_do_poll_spec d timeout dv)) = clock dv + nat timeout"
    and "\<exists>pre'. cq (snd (unvme_do_poll_spec d timeout dv)) = pre' @ c # post
           \<and> set pre' \<subseteq> set pre"
  using sweep_times_out [OF assms]
  by (simp_all add: unvme_do_poll_spec_def Let_def)

lemma poll_spec_nothing:
  assumes "iods dv d = Some PENDING" and "\<forall>x \<in> set (cq dv). cqe_cid x \<noteq> d"
  shows "fst (unvme_do_poll_spec d timeout dv) = - 1"
    and "iods (snd (unvme_do_poll_spec d timeout dv)) d = Some PENDING"
  using sweep_nothing [OF assms]
  by (simp_all add: unvme_do_poll_spec_def Let_def)

lemma poll_spec_completed:
  "iods dv d = Some OK \<Longrightarrow> fst (unvme_do_poll_spec d timeout dv) = 0"
  "iods dv d = Some (ERR code) \<Longrightarrow> fst (unvme_do_poll_spec d timeout dv) = int code"
  "is_complete (iods dv d) \<Longrightarrow> iods (snd (unvme_do_poll_spec d timeout dv)) d = None"
  by (auto simp: unvme_do_poll_spec_def Let_def sweep_complete is_complete_def
      split: option.splits iod_status.splits)

lemma apoll_is_poll:
  "fst (unvme_apoll core d timeout w) = fst (unvme_do_poll core d timeout (core_state w))"
  "core_state (snd (unvme_apoll core d timeout w)) =
     snd (unvme_do_poll core d timeout (core_state w))"
  by (simp_all add: unvme_apoll_def call_do_poll_def log_event_def split: prod.splits)

text \<open>
  C3, against the poll modelled from the specification. A poll of a descriptor
  that is already complete returns 0 for OK and the status code for ERR, and
  frees the descriptor. A poll of a pending descriptor whose completion the
  device posts within the timeout returns the entry's status field, 0 exactly
  when the command completed without error and positive otherwise, and frees
  the descriptor. When the completion is posted only after the timeout, or
  never, the poll returns \<open>-1\<close> and the descriptor stays pending; a later poll of
  the same descriptor whose timeout reaches the completion returns it and
  frees the descriptor.
\<close>

theorem apoll_returns_completion_or_timeout:
  assumes poll: "unvme_do_poll core = unvme_do_poll_spec"
  shows
   "(iods (core_state w) iod = Some OK \<longrightarrow>
       fst (unvme_apoll core iod timeout w) = 0
       \<and> iods (core_state (snd (unvme_apoll core iod timeout w))) iod = None)
    \<and> (\<forall>code. iods (core_state w) iod = Some (ERR code) \<longrightarrow>
          fst (unvme_apoll core iod timeout w) = int code
          \<and> iods (core_state (snd (unvme_apoll core iod timeout w))) iod = None)
    \<and> (\<forall>pre c post.
          iods (core_state w) iod = Some PENDING
          \<and> cq (core_state w) = pre @ c # post \<and> cqe_cid c = iod
          \<and> (\<forall>x \<in> set pre. cqe_cid x \<noteq> iod \<and> cqe_time x \<le> cqe_time c)
          \<and> cqe_time c \<le> clock (core_state w) + nat timeout \<longrightarrow>
            fst (unvme_apoll core iod timeout w) = int (cqe_status c)
            \<and> (fst (unvme_apoll core iod timeout w) = 0 \<longleftrightarrow> cqe_status c = 0)
            \<and> (0 < fst (unvme_apoll core iod timeout w) \<longleftrightarrow> cqe_status c \<noteq> 0)
            \<and> iods (core_state (snd (unvme_apoll core iod timeout w))) iod = None)
    \<and> (\<forall>pre c post.
          iods (core_state w) iod = Some PENDING
          \<and> cq (core_state w) = pre @ c # post \<and> cqe_cid c = iod
          \<and> (\<forall>x \<in> set pre. cqe_cid x \<noteq> iod \<and> cqe_time x \<le> cqe_time c)
          \<and> clock (core_state w) + nat timeout < cqe_time c \<longrightarrow>
            fst (unvme_apoll core iod timeout w) = - 1
            \<and> iods (core_state (snd (unvme_apoll core iod timeout w))) iod = Some PENDING
            \<and> (\<forall>t2. cqe_time c
                       \<le> clock (core_state (snd (unvme_apoll core iod timeout w))) + nat t2 \<longrightarrow>
                  fst (unvme_apoll core iod t2 (snd (unvme_apoll core iod timeout w))) =
                    int (cqe_status c)
                  \<and> iods (core_state (snd (unvme_apoll core iod t2
                                             (snd (unvme_apoll core iod timeout w))))) iod = None))
    \<and> (iods (core_state w) iod = Some PENDING
        \<and> (\<forall>x \<in> set (cq (core_state w)). cqe_cid x \<noteq> iod) \<longrightarrow>
          fst (unvme_apoll core iod timeout w) = - 1
          \<and> iods (core_state (snd (unvme_apoll core iod timeout w))) iod = Some PENDING)"
proof -
  define dv where "dv = core_state w"
  define dv' where "dv' = snd (unvme_do_poll_spec iod timeout dv)"
  have r1: "fst (unvme_apoll core iod timeout w) = fst (unvme_do_poll_spec iod timeout dv)"
    and s1: "core_state (snd (unvme_apoll core iod timeout w)) = dv'"
    by (simp_all add: apoll_is_poll poll dv_def dv'_def)
  have r2: "fst (unvme_apoll core iod t2 (snd (unvme_apoll core iod timeout w))) =
              fst (unvme_do_poll_spec iod t2 dv')"
    and s2: "core_state (snd (unvme_apoll core iod t2 (snd (unvme_apoll core iod timeout w)))) =
              snd (unvme_do_poll_spec iod t2 dv')" for t2
    by (simp_all add: apoll_is_poll poll dv_def dv'_def)
  have ok: "iods dv iod = Some OK \<longrightarrow>
       fst (unvme_do_poll_spec iod timeout dv) = 0 \<and> iods dv' iod = None"
    unfolding dv'_def by (simp add: poll_spec_completed is_complete_def)
  have err: "\<forall>code. iods dv iod = Some (ERR code) \<longrightarrow>
       fst (unvme_do_poll_spec iod timeout dv) = int code \<and> iods dv' iod = None"
    unfolding dv'_def by (simp add: poll_spec_completed is_complete_def)
  have arrives: "fst (unvme_do_poll_spec iod timeout dv) = int (cqe_status c)
            \<and> (fst (unvme_do_poll_spec iod timeout dv) = 0 \<longleftrightarrow> cqe_status c = 0)
            \<and> (0 < fst (unvme_do_poll_spec iod timeout dv) \<longleftrightarrow> cqe_status c \<noteq> 0)
            \<and> iods dv' iod = None"
    if "iods dv iod = Some PENDING" "cq dv = pre @ c # post" "cqe_cid c = iod"
      "\<forall>x \<in> set pre. cqe_cid x \<noteq> iod \<and> cqe_time x \<le> cqe_time c"
      "cqe_time c \<le> clock dv + nat timeout" for pre c post
    using poll_spec_arrives [OF that] by (simp add: dv'_def)
  have late: "fst (unvme_do_poll_spec iod timeout dv) = - 1
            \<and> iods dv' iod = Some PENDING
            \<and> (\<forall>t2. cqe_time c \<le> clock dv' + nat t2 \<longrightarrow>
                  fst (unvme_do_poll_spec iod t2 dv') = int (cqe_status c)
                  \<and> iods (snd (unvme_do_poll_spec iod t2 dv')) iod = None)"
    if h: "iods dv iod = Some PENDING" "cq dv = pre @ c # post" "cqe_cid c = iod"
      "\<forall>x \<in> set pre. cqe_cid x \<noteq> iod \<and> cqe_time x \<le> cqe_time c"
      "clock dv + nat timeout < cqe_time c" for pre c post
  proof -
    from h(4) have h4: "\<forall>x \<in> set pre. cqe_cid x \<noteq> iod" by simp
    note to = poll_spec_times_out [OF h(1,2,3) h4 h(5)]
    from to(4) obtain pre' where pre': "cq dv' = pre' @ c # post" "set pre' \<subseteq> set pre"
      by (auto simp: dv'_def)
    with h(4) have ord: "\<forall>x \<in> set pre'. cqe_cid x \<noteq> iod \<and> cqe_time x \<le> cqe_time c"
      by blast
    have pend: "iods dv' iod = Some PENDING" using to(2) by (simp add: dv'_def)
    have "fst (unvme_do_poll_spec iod t2 dv') = int (cqe_status c)
            \<and> iods (snd (unvme_do_poll_spec iod t2 dv')) iod = None"
      if "cqe_time c \<le> clock dv' + nat t2" for t2
      using poll_spec_arrives [OF pend pre'(1) h(3) ord that] by simp
    with to(1) pend show ?thesis by simp
  qed
  have absent: "iods dv iod = Some PENDING \<and> (\<forall>x \<in> set (cq dv). cqe_cid x \<noteq> iod) \<longrightarrow>
          fst (unvme_do_poll_spec iod timeout dv) = - 1 \<and> iods dv' iod = Some PENDING"
    using poll_spec_nothing [of dv iod timeout] by (simp add: dv'_def)
  have arrives': "\<forall>pre c post.
          iods dv iod = Some PENDING
          \<and> cq dv = pre @ c # post \<and> cqe_cid c = iod
          \<and> (\<forall>x \<in> set pre. cqe_cid x \<noteq> iod \<and> cqe_time x \<le> cqe_time c)
          \<and> cqe_time c \<le> clock dv + nat timeout \<longrightarrow>
            fst (unvme_do_poll_spec iod timeout dv) = int (cqe_status c)
            \<and> (fst (unvme_do_poll_spec iod timeout dv) = 0 \<longleftrightarrow> cqe_status c = 0)
            \<and> (0 < fst (unvme_do_poll_spec iod timeout dv) \<longleftrightarrow> cqe_status c \<noteq> 0)
            \<and> iods dv' iod = None"
    using arrives by (intro allI impI) (elim conjE, rule arrives)
  have late': "\<forall>pre c post.
          iods dv iod = Some PENDING
          \<and> cq dv = pre @ c # post \<and> cqe_cid c = iod
          \<and> (\<forall>x \<in> set pre. cqe_cid x \<noteq> iod \<and> cqe_time x \<le> cqe_time c)
          \<and> clock dv + nat timeout < cqe_time c \<longrightarrow>
            fst (unvme_do_poll_spec iod timeout dv) = - 1
            \<and> iods dv' iod = Some PENDING
            \<and> (\<forall>t2. cqe_time c \<le> clock dv' + nat t2 \<longrightarrow>
                  fst (unvme_do_poll_spec iod t2 dv') = int (cqe_status c)
                  \<and> iods (snd (unvme_do_poll_spec iod t2 dv')) iod = None)"
    by (intro allI impI) (elim conjE, rule late)
  note all = conjI [OF ok conjI [OF err conjI [OF arrives' conjI [OF late' absent]]]]
  show ?thesis
    unfolding r1 s1 r2 s2 dv_def [symmetric] by (rule all)
qed

theorem apoll_returns_completion_or_timeout_witness:
  "unvme_do_poll spec_poll_core = unvme_do_poll_spec
   \<and> iods (core_state (world_s4 0)) 0 = Some PENDING
   \<and> fst (unvme_apoll spec_poll_core 0 0 (world_s4 0)) = - 1
   \<and> iods (core_state (snd (unvme_apoll spec_poll_core 0 0 (world_s4 0)))) 0 = Some PENDING
   \<and> fst (unvme_apoll spec_poll_core 0 5 (snd (unvme_apoll spec_poll_core 0 0 (world_s4 0)))) = 0
   \<and> iods (core_state (snd (unvme_apoll spec_poll_core 0 5
                               (snd (unvme_apoll spec_poll_core 0 0 (world_s4 0)))))) 0 = None
   \<and> fst (unvme_apoll spec_poll_core 0 5 (world_s4 6)) = 6
   \<and> iods (core_state (snd (unvme_apoll spec_poll_core 0 5 (world_s4 6)))) 0 = None"
proof -
  have poll: "unvme_do_poll spec_poll_core = unvme_do_poll_spec"
    by (simp add: spec_poll_core_def)
  define c0 where "c0 = \<lparr>cqe_time = 3, cqe_cid = 0, cqe_status = 0\<rparr>"
  define c6 where "c6 = \<lparr>cqe_time = 3, cqe_cid = 0, cqe_status = 6\<rparr>"
  have pend: "iods (core_state (world_s4 s)) 0 = Some PENDING" for s
    by (simp add: world_s4_def device_s4_def)
  have h0: "iods (core_state (world_s4 0)) 0 = Some PENDING
          \<and> cq (core_state (world_s4 0)) = [] @ c0 # [] \<and> cqe_cid c0 = 0
          \<and> (\<forall>x \<in> set []. cqe_cid x \<noteq> 0 \<and> cqe_time x \<le> cqe_time c0)
          \<and> clock (core_state (world_s4 0)) + nat 0 < cqe_time c0"
    by (simp add: world_s4_def device_s4_def c0_def)
  have h6: "iods (core_state (world_s4 6)) 0 = Some PENDING
          \<and> cq (core_state (world_s4 6)) = [] @ c6 # [] \<and> cqe_cid c6 = 0
          \<and> (\<forall>x \<in> set []. cqe_cid x \<noteq> 0 \<and> cqe_time x \<le> cqe_time c6)
          \<and> cqe_time c6 \<le> clock (core_state (world_s4 6)) + nat 5"
    by (simp add: world_s4_def device_s4_def c6_def)
  have later: "cqe_time c0
                 \<le> clock (core_state (snd (unvme_apoll spec_poll_core 0 0 (world_s4 0)))) + nat 5"
    by (simp add: c0_def)
  note t0 = apoll_returns_completion_or_timeout [OF poll, of "world_s4 0" 0 0]
  note late0 = t0 [THEN conjunct2, THEN conjunct2, THEN conjunct2, THEN conjunct1,
                   rule_format, OF h0]
  note again = late0 [THEN conjunct2, THEN conjunct2, rule_format, OF later]
  note t6 = apoll_returns_completion_or_timeout [OF poll, of "world_s4 6" 0 5]
  note arrive6 = t6 [THEN conjunct2, THEN conjunct2, THEN conjunct1, rule_format, OF h6]
  from poll pend [of 0] late0 again arrive6 show ?thesis
    by (simp add: c0_def c6_def)
qed

subsection \<open>The set-features test program\<close>

lemma to_int32_mod: "to_int32 v mod 4294967296 = v mod 4294967296"
  by (simp add: to_int32_def Let_def)

lemma parse_args_arg4: "parse_args (argv[4 := a]) = parse_args argv"
proof -
  have n: "argv[4 := a] ! 3 = argv ! 3" "argv[4 := a] ! 2 = argv ! 2" by simp_all
  show ?thesis unfolding parse_args_def length_list_update n by (rule refl)
qed

text \<open>
  C8. When the arguments parse, the value of \<^verbatim>\<open>res\<close> handed to the features command
  is the number read from \<^verbatim>\<open>argv[3]\<close>, the same number as \<^verbatim>\<open>fid\<close>, converted to
  \<^verbatim>\<open>u32\<close>. Replacing \<^verbatim>\<open>argv[4]\<close> by any other string changes neither the parsed
  arguments nor how the program ends: the feature argument is never read. With
  the command taking \<^verbatim>\<open>res\<close> as an OUT parameter only, the value printed is the
  device's reply to the command for the parsed namespace and feature.
\<close>

theorem set_features_res_from_feature_id:
  "(parse_args argv = Some (nsid, fid, res) \<longrightarrow>
      res = to_u32 (fst (strtol (argv ! 3)))
      \<and> fid = to_int32 (fst (strtol (argv ! 3)))
      \<and> int res = fid mod 4294967296)
   \<and> parse_args (argv[4 := a]) = parse_args argv
   \<and> main_set_features env (argv[4 := a]) = main_set_features env argv
   \<and> (main_set_features env argv = Printed fid' r \<longrightarrow>
        (\<exists>nsid' res' prp1. parse_args argv = Some (nsid', fid', res')
           \<and> vfio_dma_alloc env = Some prp1
           \<and> device_features env nsid' fid' prp1 0 = (0, r)))"
proof (intro conjI impI)
  assume p: "parse_args argv = Some (nsid, fid, res)"
  then show r: "res = to_u32 (fst (strtol (argv ! 3)))"
    and f: "fid = to_int32 (fst (strtol (argv ! 3)))"
    by (auto simp: parse_args_def split: if_splits prod.splits)
  show "int res = fid mod 4294967296"
    unfolding r f by (simp add: to_u32_def to_int32_mod)
next
  show "parse_args (argv[4 := a]) = parse_args argv" by (rule parse_args_arg4)
  then show "main_set_features env (argv[4 := a]) = main_set_features env argv"
    by (simp add: main_set_features_def)
next
  assume "main_set_features env argv = Printed fid' r"
  then show "\<exists>nsid' res' prp1. parse_args argv = Some (nsid', fid', res')
           \<and> vfio_dma_alloc env = Some prp1
           \<and> device_features env nsid' fid' prp1 0 = (0, r)"
    by (auto simp: main_set_features_def nvme_acmd_get_features_def
        split: option.splits prod.splits if_splits)
qed

lemma strtol_1: "strtol ''1'' = (1, [])"
  by code_simp
lemma strtol_7: "strtol ''7'' = (7, [])"
  by code_simp

lemma parse_args_7: "parse_args argv_7 = Some (1, 7, 7)"
  by (simp add: parse_args_def argv_7_def strtol_1 strtol_7 to_int32_def to_u32_def)

theorem set_features_res_from_feature_id_witness:
  "parse_args argv_7 = Some (1, 7, 7)
   \<and> argv_7 ! 3 = ''7'' \<and> argv_7 ! 4 = ''255''
   \<and> (7::nat) = to_u32 (fst (strtol (argv_7 ! 3)))
   \<and> int (7::nat) = 7 mod 4294967296
   \<and> main_set_features nvme_env argv_7 = Printed 7 983055
   \<and> main_set_features nvme_env (argv_7[4 := ''0'']) = Printed 7 983055
   \<and> device_features nvme_env 1 7 4096 0 = (0, 983055)"
proof -
  note t = set_features_res_from_feature_id
    [where argv = argv_7 and nsid = 1 and fid = 7 and res = 7 and env = nvme_env
       and a = "''0''" and fid' = 7 and r = 983055]
  have run: "main_set_features nvme_env argv_7 = Printed 7 983055"
    by (simp add: main_set_features_def parse_args_7 nvme_env_def nvme_acmd_get_features_def)
  from t parse_args_7
  have a: "(7::nat) = to_u32 (fst (strtol (argv_7 ! 3)))" "int (7::nat) = 7 mod 4294967296"
    by blast+
  from t have b: "main_set_features nvme_env (argv_7[4 := ''0'']) = main_set_features nvme_env argv_7"
    by blast
  have c: "device_features nvme_env 1 7 4096 0 = (0, 983055)"
    by (simp add: nvme_env_def)
  have d: "argv_7 ! 3 = ''7''" "argv_7 ! 4 = ''255''" by (simp_all add: argv_7_def)
  from parse_args_7 a b c d run show ?thesis by simp
qed

end
